theory Spec2Isabelle
  imports Complex_Main
begin

section \<open>Values, objects and the store\<close>

text \<open>
  The playlist loader works on plain JavaScript objects: property bags that are shared by
  reference and changed in place (\<open>Object.assign\<close>, property assignment). The model has an
  explicit store. A value is a primitive or a reference into the store; a store cell is an
  object (its own properties) or an array (its elements and its named properties, which
  the loader uses for the by-URI lookup on \<open>master.playlists\<close>). Allocation appends a
  cell, so the address of a new object is the length of the store.

  Numbers are reals with a separate \<open>NaN\<close>: arithmetic is exact, and the infinities do not
  occur. Three parts of the language stay outside the model and yield \<open>NotModelled\<close>
  instead of a made-up result: conversions between strings and numbers (a numeric
  operand that is a string, a property name that spells an array index or \<open>length\<close>),
  objects that take the place of primitives, and arrays with holes. Inherited
  (prototype) properties are not modelled. The file is an ES module, hence strict mode:
  assigning to a property of a primitive throws.
\<close>

type_synonym addr = nat

datatype val = Undef | Null | B bool | N real | NaN | S string | Ref addr

type_synonym props = "string \<Rightarrow> val option"

datatype cell = Obj props | Arr "val list" props

type_synonym heap = "cell list"

datatype error = TypeError | NotModelled

definition bnd :: "error + 'a \<Rightarrow> ('a \<Rightarrow> error + 'b) \<Rightarrow> error + 'b" where
  "bnd m f = (case m of Inl e \<Rightarrow> Inl e | Inr x \<Rightarrow> f x)"

subsection \<open>Primitive operators\<close>

fun truthy :: "val \<Rightarrow> bool" where
  "truthy Undef = False"
| "truthy Null = False"
| "truthy (B b) = b"
| "truthy (N r) = (r \<noteq> 0)"
| "truthy NaN = False"
| "truthy (S s) = (s \<noteq> [])"
| "truthy (Ref a) = True"

definition js_or :: "val \<Rightarrow> val \<Rightarrow> val" where
  "js_or a b = (if truthy a then a else b)"

definition strict_eq :: "val \<Rightarrow> val \<Rightarrow> bool" where
  "strict_eq a b = (a = b \<and> a \<noteq> NaN)"

text \<open>\<open>ToNumber\<close>; \<open>None\<close> stands for NaN.\<close>

fun to_number :: "val \<Rightarrow> error + real option" where
  "to_number Undef = Inr None"
| "to_number Null = Inr (Some 0)"
| "to_number (B b) = Inr (Some (if b then 1 else 0))"
| "to_number (N r) = Inr (Some r)"
| "to_number NaN = Inr None"
| "to_number (S s) = Inl NotModelled"
| "to_number (Ref a) = Inl NotModelled"

definition arith :: "(real \<Rightarrow> real \<Rightarrow> real) \<Rightarrow> val \<Rightarrow> val \<Rightarrow> error + val" where
  "arith f a b =
     bnd (to_number a) (\<lambda>x. bnd (to_number b) (\<lambda>y.
       Inr (case x of None \<Rightarrow> NaN
            | Some p \<Rightarrow> (case y of None \<Rightarrow> NaN | Some q \<Rightarrow> N (f p q)))))"

definition compare :: "(real \<Rightarrow> real \<Rightarrow> bool) \<Rightarrow> val \<Rightarrow> val \<Rightarrow> error + bool" where
  "compare f a b =
     bnd (to_number a) (\<lambda>x. bnd (to_number b) (\<lambda>y.
       Inr (case x of None \<Rightarrow> False
            | Some p \<Rightarrow> (case y of None \<Rightarrow> False | Some q \<Rightarrow> f p q))))"

definition js_sub :: "val \<Rightarrow> val \<Rightarrow> error + val" where
  "js_sub = arith (\<lambda>p q. p - q)"

definition js_mul :: "val \<Rightarrow> val \<Rightarrow> error + val" where
  "js_mul = arith (\<lambda>p q. p * q)"

text \<open>Division by zero gives an infinity, which the model does not have.\<close>

definition js_div :: "val \<Rightarrow> val \<Rightarrow> error + val" where
  "js_div a b = (if b = N 0 then Inl NotModelled else arith (\<lambda>p q. p / q) a b)"

text \<open>\<open>+\<close> concatenates two strings and adds two non-strings.\<close>

fun js_add :: "val \<Rightarrow> val \<Rightarrow> error + val" where
  "js_add (S s) (S t) = Inr (S (s @ t))"
| "js_add a b = arith (\<lambda>p q. p + q) a b"

definition js_lt :: "val \<Rightarrow> val \<Rightarrow> error + bool" where
  "js_lt = compare (\<lambda>p q. p < q)"

definition js_le :: "val \<Rightarrow> val \<Rightarrow> error + bool" where
  "js_le = compare (\<lambda>p q. p \<le> q)"

definition js_ge :: "val \<Rightarrow> val \<Rightarrow> error + bool" where
  "js_ge = compare (\<lambda>p q. p \<ge> q)"

definition math_min :: "val \<Rightarrow> val \<Rightarrow> error + val" where
  "math_min = arith min"

subsection \<open>Reading and writing the store\<close>

definition cell_at :: "heap \<Rightarrow> addr \<Rightarrow> cell option" where
  "cell_at h a = (if a < length h then Some (h ! a) else None)"

definition lookup :: "props \<Rightarrow> string \<Rightarrow> val" where
  "lookup ps k = (case ps k of None \<Rightarrow> Undef | Some v \<Rightarrow> v)"

text \<open>Property names that address the indexed part of an array.\<close>

definition array_key :: "string \<Rightarrow> bool" where
  "array_key k =
     (k = ''length'' \<or>
      (k \<noteq> [] \<and> list_all (\<lambda>c. c \<in> set ''0123456789'') k \<and> (k = ''0'' \<or> hd k \<noteq> CHR ''0'')))"

text \<open>\<open>v.k\<close> for a property name \<open>k\<close>.\<close>

fun get :: "heap \<Rightarrow> val \<Rightarrow> string \<Rightarrow> error + val" where
  "get h Undef k = Inl TypeError"
| "get h Null k = Inl TypeError"
| "get h (S s) k = Inl NotModelled"
| "get h (Ref a) k =
     (case cell_at h a of
        None \<Rightarrow> Inl NotModelled
      | Some (Obj ps) \<Rightarrow> Inr (lookup ps k)
      | Some (Arr es ps) \<Rightarrow>
          if k = ''length'' then Inr (N (real (length es)))
          else if array_key k then Inl NotModelled
          else Inr (lookup ps k))"
| "get h v k = Inr Undef"

text \<open>\<open>v.k = x\<close>.\<close>

fun put :: "heap \<Rightarrow> val \<Rightarrow> string \<Rightarrow> val \<Rightarrow> error + heap" where
  "put h (Ref a) k x =
     (case cell_at h a of
        None \<Rightarrow> Inl NotModelled
      | Some (Obj ps) \<Rightarrow> Inr (h[a := Obj (ps(k \<mapsto> x))])
      | Some (Arr es ps) \<Rightarrow>
          if array_key k then Inl NotModelled else Inr (h[a := Arr es (ps(k \<mapsto> x))]))"
| "put h v k x = Inl TypeError"

text \<open>
  \<open>v[i]\<close> for a number \<open>i\<close>. On an array a number that is no index of it (negative,
  fractional, or past the end) names no element, and the read yields \<open>undefined\<close>.
\<close>

definition nat_index :: "real \<Rightarrow> nat option" where
  "nat_index r = (if 0 \<le> r \<and> r = of_int \<lfloor>r\<rfloor> then Some (nat \<lfloor>r\<rfloor>) else None)"

fun get_idx :: "heap \<Rightarrow> val \<Rightarrow> real \<Rightarrow> error + val" where
  "get_idx h Undef i = Inl TypeError"
| "get_idx h Null i = Inl TypeError"
| "get_idx h (S s) i = Inl NotModelled"
| "get_idx h (Ref a) i =
     (case cell_at h a of
        Some (Arr es ps) \<Rightarrow>
          (case nat_index i of
             None \<Rightarrow> Inr Undef
           | Some n \<Rightarrow> Inr (if n < length es then es ! n else Undef))
      | _ \<Rightarrow> Inl NotModelled)"
| "get_idx h v i = Inr Undef"

text \<open>\<open>v[i] = x\<close>: inside the array it overwrites, at its end it extends the array by one.\<close>

fun put_idx :: "heap \<Rightarrow> val \<Rightarrow> real \<Rightarrow> val \<Rightarrow> error + heap" where
  "put_idx h (Ref a) i x =
     (case cell_at h a of
        Some (Arr es ps) \<Rightarrow>
          (case nat_index i of
             None \<Rightarrow> Inl NotModelled
           | Some n \<Rightarrow>
               if n < length es then Inr (h[a := Arr (es[n := x]) ps])
               else if n = length es then Inr (h[a := Arr (es @ [x]) ps])
               else Inl NotModelled)
      | _ \<Rightarrow> Inl NotModelled)"
| "put_idx h v i x = Inl TypeError"

text \<open>\<open>v.slice()\<close>: a new array with the same elements and no named properties.\<close>

fun array_slice :: "heap \<Rightarrow> val \<Rightarrow> error + (val \<times> heap)" where
  "array_slice h (Ref a) =
     (case cell_at h a of
        Some (Arr es ps) \<Rightarrow> Inr (Ref (length h), h @ [Arr es Map.empty])
      | Some (Obj ps) \<Rightarrow> Inl TypeError
      | None \<Rightarrow> Inl NotModelled)"
| "array_slice h (S s) = Inl NotModelled"
| "array_slice h v = Inl TypeError"

text \<open>
  \<open>Object.assign(target, source)\<close> copies the source's own properties onto the target
  object itself and returns the target: no new object is made.
\<close>

fun own_props :: "heap \<Rightarrow> val \<Rightarrow> error + props" where
  "own_props h (Ref a) =
     (case cell_at h a of
        Some (Obj ps) \<Rightarrow> Inr ps
      | Some (Arr es ps) \<Rightarrow> if es = [] then Inr ps else Inl NotModelled
      | None \<Rightarrow> Inl NotModelled)"
| "own_props h (S s) = (if s = [] then Inr Map.empty else Inl NotModelled)"
| "own_props h v = Inr Map.empty"

fun object_assign :: "heap \<Rightarrow> val \<Rightarrow> val \<Rightarrow> error + (val \<times> heap)" where
  "object_assign h Undef s = Inl TypeError"
| "object_assign h Null s = Inl TypeError"
| "object_assign h (Ref a) s =
     bnd (own_props h s) (\<lambda>sp.
       case cell_at h a of
         Some (Obj tp) \<Rightarrow> Inr (Ref a, h[a := Obj (tp ++ sp)])
       | _ \<Rightarrow> Inl NotModelled)"
| "object_assign h v s = Inl NotModelled"

section \<open>Segment reconciler\<close>

text \<open>
  \<open>updateSegments(original, update, offset)\<close>. The loop counter starts at
  \<open>offset || 0\<close>; the bound is \<open>Math.min(original.length, update.length + offset)\<close>,
  and no iteration runs when the bound is NaN.
\<close>

function seg_loop :: "heap \<Rightarrow> val \<Rightarrow> val \<Rightarrow> real \<Rightarrow> real \<Rightarrow> real \<Rightarrow> error + heap" where
  "seg_loop h original result offset len i =
     (if i < len then
        (case get_idx h original i of
           Inl e \<Rightarrow> Inl e
         | Inr t \<Rightarrow>
        (case get_idx h result (i - offset) of
           Inl e \<Rightarrow> Inl e
         | Inr s \<Rightarrow>
        (case object_assign h t s of
           Inl e \<Rightarrow> Inl e
         | Inr (v, h1) \<Rightarrow>
        (case put_idx h1 result (i - offset) v of
           Inl e \<Rightarrow> Inl e
         | Inr h2 \<Rightarrow> seg_loop h2 original result offset len (i + 1)))))
      else Inr h)"
  by pat_completeness auto
termination
  by (relation "measure (\<lambda>(h, original, result, offset, len, i). nat \<lceil>len - i\<rceil>)")
     (auto, linarith)

declare seg_loop.simps [simp del]

definition as_counter :: "val \<Rightarrow> error + real" where
  "as_counter v = (case v of N r \<Rightarrow> Inr r | _ \<Rightarrow> Inl NotModelled)"

definition updateSegments :: "heap \<Rightarrow> val \<Rightarrow> val \<Rightarrow> val \<Rightarrow> error + (val \<times> heap)" where
  "updateSegments h original update offset =
     bnd (array_slice h update) (\<lambda>(result, h1).
     bnd (as_counter (js_or offset (N 0))) (\<lambda>off.
     bnd (get h1 original ''length'') (\<lambda>ol.
     bnd (get h1 update ''length'') (\<lambda>ul.
     bnd (js_add ul (N off)) (\<lambda>s.
     bnd (math_min ol s) (\<lambda>len.
       case len of
         N l \<Rightarrow> bnd (seg_loop h1 original result off l off) (\<lambda>h2. Inr (result, h2))
       | _ \<Rightarrow> Inr (result, h1)))))))"

lemma bnd_Inl [simp]: "bnd (Inl e) f = Inl e"
  by (simp add: bnd_def)

lemma bnd_Inr [simp]: "bnd (Inr x) f = f x"
  by (simp add: bnd_def)

lemma bnd_cong [fundef_cong]:
  "m = m' \<Longrightarrow> (\<And>x. m' = Inr x \<Longrightarrow> f x = f' x) \<Longrightarrow> bnd m f = bnd m' f'"
  by (cases m') (simp_all add: bnd_def)

section \<open>Merging a media playlist into the master\<close>

text \<open>
  \<open>x[v]\<close> and \<open>x[v] = y\<close> for a property name computed from a value, as in
  \<open>playlists[media.uri]\<close>.
\<close>

definition to_key :: "val \<Rightarrow> error + string" where
  "to_key v =
     (case v of
        S s \<Rightarrow> Inr s
      | Undef \<Rightarrow> Inr ''undefined''
      | Null \<Rightarrow> Inr ''null''
      | B b \<Rightarrow> Inr (if b then ''true'' else ''false'')
      | NaN \<Rightarrow> Inr ''NaN''
      | _ \<Rightarrow> Inl NotModelled)"

definition get_key :: "heap \<Rightarrow> val \<Rightarrow> val \<Rightarrow> error + val" where
  "get_key h x v = bnd (to_key v) (get h x)"

definition put_key :: "heap \<Rightarrow> val \<Rightarrow> val \<Rightarrow> val \<Rightarrow> error + heap" where
  "put_key h x v y = bnd (to_key v) (\<lambda>k. put h x k y)"

text \<open>
  The number of rounds of \<open>while (n--)\<close>: the value before the decrement is tested. A
  count that never reaches zero (negative or fractional) is outside the model.
\<close>

definition loop_count :: "val \<Rightarrow> error + nat" where
  "loop_count v =
     bnd (to_number v) (\<lambda>x.
       case x of
         None \<Rightarrow> Inr 0
       | Some r \<Rightarrow> (case nat_index r of Some n \<Rightarrow> Inr n | None \<Rightarrow> Inl NotModelled))"

text \<open>
  The test that skips a playlist (lines 64 to 67): both have segments, as many of them,
  and the same media sequence number.
\<close>

definition unchanged :: "heap \<Rightarrow> val \<Rightarrow> val \<Rightarrow> error + bool" where
  "unchanged h playlist media =
     bnd (get h playlist ''segments'') (\<lambda>ps.
     if \<not> truthy ps then Inr False else
     bnd (get h media ''segments'') (\<lambda>ms.
     if \<not> truthy ms then Inr False else
     bnd (get h ps ''length'') (\<lambda>pl.
     bnd (get h ms ''length'') (\<lambda>ml.
     if \<not> strict_eq pl ml then Inr False else
     bnd (get h playlist ''mediaSequence'') (\<lambda>pq.
     bnd (get h media ''mediaSequence'') (\<lambda>mq.
     Inr (strict_eq pq mq)))))))"

text \<open>
  Lines 93 to 98, for \<open>k\<close> = \<open>key\<close> and \<open>k\<close> = \<open>map\<close>. The URI resolver is a collaborator
  outside the source file; it is the parameter \<open>rs\<close>, a function of two values.
\<close>

definition resolve_sub :: "(val \<Rightarrow> val \<Rightarrow> val) \<Rightarrow> val \<Rightarrow> val \<Rightarrow> string \<Rightarrow> heap \<Rightarrow> error + heap" where
  "resolve_sub rs playlist segment k h =
     bnd (get h segment k) (\<lambda>sub.
     if \<not> truthy sub then Inr h else
     bnd (get h sub ''resolvedUri'') (\<lambda>r.
     if truthy r then Inr h else
     bnd (get h playlist ''resolvedUri'') (\<lambda>base.
     bnd (get h sub ''uri'') (\<lambda>u.
     put h sub ''resolvedUri'' (rs base u)))))"

text \<open>The loop of lines 88 to 99; each round reads \<open>result.playlists[i].segments[j]\<close> anew.\<close>

fun resolve_loop :: "(val \<Rightarrow> val \<Rightarrow> val) \<Rightarrow> val \<Rightarrow> real \<Rightarrow> val \<Rightarrow> nat \<Rightarrow> heap \<Rightarrow> error + heap" where
  "resolve_loop rs result i playlist 0 h = Inr h"
| "resolve_loop rs result i playlist (Suc j) h =
     bnd (get h result ''playlists'') (\<lambda>pls.
     bnd (get_idx h pls i) (\<lambda>cur.
     bnd (get h cur ''segments'') (\<lambda>segs.
     bnd (get_idx h segs (real j)) (\<lambda>segment.
     bnd (get h segment ''resolvedUri'') (\<lambda>r.
     bnd (if truthy r then Inr h
          else bnd (get h playlist ''resolvedUri'') (\<lambda>base.
               bnd (get h segment ''uri'') (\<lambda>u.
               put h segment ''resolvedUri'' (rs base u)))) (\<lambda>h1.
     bnd (resolve_sub rs playlist segment ''key'' h1) (\<lambda>h2.
     bnd (resolve_sub rs playlist segment ''map'' h2) (\<lambda>h3.
     resolve_loop rs result i playlist j h3))))))))"

text \<open>
  Lines 71 to 99, the merge of one matching playlist. \<open>Object.assign(playlist, media)\<close>
  writes the update's properties into the old playlist object, so the reads of
  \<open>playlist.segments\<close> and \<open>playlist.mediaSequence\<close> that follow see the update's values.
\<close>

definition merge_playlist :: "(val \<Rightarrow> val \<Rightarrow> val) \<Rightarrow> val \<Rightarrow> val \<Rightarrow> real \<Rightarrow> val \<Rightarrow> heap \<Rightarrow> error + heap" where
  "merge_playlist rs result media i playlist h =
     bnd (get h result ''playlists'') (\<lambda>pls.
     bnd (object_assign h playlist media) (\<lambda>(merged, h1).
     bnd (put_idx h1 pls i merged) (\<lambda>h2.
     bnd (get h2 result ''playlists'') (\<lambda>pls2.
     bnd (get h2 media ''uri'') (\<lambda>mu.
     bnd (get_idx h2 pls2 i) (\<lambda>cur.
     bnd (put_key h2 pls2 mu cur) (\<lambda>h3.
     bnd (get h3 playlist ''segments'') (\<lambda>ps.
     bnd (if truthy ps then
            bnd (get h3 result ''playlists'') (\<lambda>pls3.
            bnd (get_idx h3 pls3 i) (\<lambda>target.
            bnd (get h3 media ''segments'') (\<lambda>ms.
            bnd (get h3 media ''mediaSequence'') (\<lambda>mq.
            bnd (get h3 playlist ''mediaSequence'') (\<lambda>pq.
            bnd (js_sub mq pq) (\<lambda>offset.
            bnd (updateSegments h3 ps ms offset) (\<lambda>(segs, h4).
            put h4 target ''segments'' segs)))))))
          else Inr h3) (\<lambda>h5.
     bnd (get h5 result ''playlists'') (\<lambda>pls5.
     bnd (get_idx h5 pls5 i) (\<lambda>cur5.
     bnd (get h5 cur5 ''segments'') (\<lambda>s5.
     bnd (if truthy s5 then bnd (get h5 s5 ''length'') loop_count else Inr 0) (\<lambda>j.
     resolve_loop rs result i playlist j h5)))))))))))))"

text \<open>The loop of lines 59 to 102, from the last playlist to the first.\<close>

fun um_loop :: "(val \<Rightarrow> val \<Rightarrow> val) \<Rightarrow> val \<Rightarrow> val \<Rightarrow> nat \<Rightarrow> bool \<Rightarrow> heap \<Rightarrow> error + (bool \<times> heap)" where
  "um_loop rs result media 0 changed h = Inr (changed, h)"
| "um_loop rs result media (Suc i) changed h =
     bnd (get h result ''playlists'') (\<lambda>pls.
     bnd (get_idx h pls (real i)) (\<lambda>playlist.
     bnd (get h playlist ''uri'') (\<lambda>pu.
     bnd (get h media ''uri'') (\<lambda>mu.
     if \<not> strict_eq pu mu then um_loop rs result media i changed h else
     bnd (unchanged h playlist media) (\<lambda>skip.
     if skip then um_loop rs result media i changed h else
     bnd (merge_playlist rs result media (real i) playlist h) (\<lambda>h'.
     um_loop rs result media i True h'))))))"

text \<open>
  \<open>updateMaster(master, media)\<close>. \<open>Object.assign(master, {})\<close> copies nothing and returns
  \<open>master\<close> itself, so \<open>result\<close> is the master object; the empty literal is unreachable
  afterwards and is left out of the store. The result is \<open>Null\<close> for \<open>null\<close>.
\<close>

definition updateMaster :: "(val \<Rightarrow> val \<Rightarrow> val) \<Rightarrow> heap \<Rightarrow> val \<Rightarrow> val \<Rightarrow> error + (val \<times> heap)" where
  "updateMaster rs h master media =
     bnd (object_assign h master Undef) (\<lambda>(result, h0).
     bnd (get h0 master ''playlists'') (\<lambda>pls.
     bnd (get h0 pls ''length'') (\<lambda>n.
     bnd (loop_count n) (\<lambda>i.
     bnd (um_loop rs result media i False h0) (\<lambda>(changed, h').
     Inr (if changed then result else Null, h'))))))"

section \<open>The playlist loader\<close>

datatype lstate = HAVE_NOTHING | HAVE_MASTER | HAVE_METADATA | SWITCHING_MEDIA

text \<open>
  What the loader does to the world outside the store: log lines, events, requests and
  timers. \<open>this.trigger\<close>, \<open>this.hls_.xhr\<close>, the request's \<open>abort\<close>, \<open>Log.e\<close> and the
  window's timers are collaborators that the source file calls and does not define; a
  call of one appends an effect.
\<close>

datatype effect =
    LogError string
  | Trigger string
  | Abort val
  | Request val
  | ClearTimeout val
  | SetTimeout val

record error_info =
  err_playlist :: val
  err_status :: val
  err_message :: val
  err_responseText :: val
  err_code :: val

record loader =
  ld_state :: lstate
  ld_master :: val
  ld_media :: val
  ld_xhr :: val
  ld_bandwidth :: val
  ld_expired :: val
  ld_trackExpiredTime :: val
  ld_refreshDelay :: val
  ld_targetDuration :: val
  ld_mediaUpdateTimeout :: val
  ld_error :: "error_info option"
  ld_effects :: "effect list"

definition emit :: "effect \<Rightarrow> loader \<Rightarrow> loader" where
  "emit e l = l\<lparr>ld_effects := ld_effects l @ [e]\<rparr>"

subsection \<open>Rendition selector\<close>

text \<open>\<open>array.filter(f).length\<close>; a value that is no array has no \<open>filter\<close> to call.\<close>

fun array_elems :: "heap \<Rightarrow> val \<Rightarrow> error + val list" where
  "array_elems h (Ref a) =
     (case cell_at h a of
        Some (Arr es ps) \<Rightarrow> Inr es
      | Some (Obj ps) \<Rightarrow> Inl TypeError
      | None \<Rightarrow> Inl NotModelled)"
| "array_elems h v = Inl TypeError"

fun filter_count :: "(val \<Rightarrow> error + bool) \<Rightarrow> val list \<Rightarrow> error + nat" where
  "filter_count f [] = Inr 0"
| "filter_count f (x # xs) =
     bnd (f x) (\<lambda>b. bnd (filter_count f xs) (\<lambda>n. Inr (if b then Suc n else n)))"

text \<open>\<open>Date.now()\<close> is the parameter \<open>now\<close>.\<close>

definition enabledPlaylists :: "real \<Rightarrow> heap \<Rightarrow> loader \<Rightarrow> error + nat" where
  "enabledPlaylists now h l =
     bnd (get h (ld_master l) ''playlists'') (\<lambda>pls.
     bnd (array_elems h pls) (\<lambda>es.
     filter_count (\<lambda>element.
       bnd (get h element ''excludeUntil'') (\<lambda>e.
       if \<not> truthy e then Inr True else js_le e (N now))) es))"

definition lower_or_equal :: "real \<Rightarrow> heap \<Rightarrow> val \<Rightarrow> val \<Rightarrow> error + bool" where
  "lower_or_equal now h currentBandwidth playlist =
     bnd (get h playlist ''excludeUntil'') (\<lambda>e.
     bnd (if e = Undef then Inr True else js_le e (N now)) (\<lambda>enabled.
     if \<not> enabled then Inr False else
     bnd (if truthy playlist then
            bnd (get h playlist ''attributes'') (\<lambda>a.
            if truthy a then get h a ''BANDWIDTH'' else Inr (N 0))
          else Inr (N 0)) (\<lambda>bandwidth.
     js_le bandwidth currentBandwidth)))"

definition isLowestEnabledRendition :: "real \<Rightarrow> heap \<Rightarrow> loader \<Rightarrow> error + bool" where
  "isLowestEnabledRendition now h l =
     (if \<not> truthy (ld_media l) then Inr False else
      bnd (get h (ld_media l) ''attributes'') (\<lambda>attributes.
      if \<not> truthy attributes then Inr False else
      bnd (get h attributes ''BANDWIDTH'') (\<lambda>bw.
      bnd (get h (ld_master l) ''playlists'') (\<lambda>pls.
      bnd (array_elems h pls) (\<lambda>es.
      bnd (filter_count (lower_or_equal now h (js_or bw (N 0))) es) (\<lambda>n.
      Inr (\<not> n > 1)))))))"

subsection \<open>Live window tracker\<close>

text \<open>The loop of lines 330 to 351; the result is the new value of \<open>expired_\<close>.\<close>

function expired_walk :: "heap \<Rightarrow> val \<Rightarrow> real \<Rightarrow> val \<Rightarrow> error + val" where
  "expired_walk h outdated i expired =
     (if 0 \<le> i then
        (case get h outdated ''segments'' of
           Inl e \<Rightarrow> Inl e
         | Inr segs \<Rightarrow>
        (case get_idx h segs i of
           Inl e \<Rightarrow> Inl e
         | Inr segment \<Rightarrow>
           if \<not> truthy segment then
             (case get h outdated ''targetDuration'' of
                Inl e \<Rightarrow> Inl e
              | Inr td \<Rightarrow>
             (case js_add expired (js_or td (N 10)) of
                Inl e \<Rightarrow> Inl e
              | Inr x \<Rightarrow> expired_walk h outdated (i - 1) x))
           else
             (case get h segment ''end'' of
                Inl e \<Rightarrow> Inl e
              | Inr en \<Rightarrow>
                if en \<noteq> Undef then Inr en else
             (case get h segment ''start'' of
                Inl e \<Rightarrow> Inl e
              | Inr st \<Rightarrow>
                if st \<noteq> Undef then bnd (get h segment ''duration'') (js_add st) else
             (case get h segment ''duration'' of
                Inl e \<Rightarrow> Inl e
              | Inr d \<Rightarrow>
             (case js_add expired d of
                Inl e \<Rightarrow> Inl e
              | Inr x \<Rightarrow> expired_walk h outdated (i - 1) x))))))
      else Inr expired)"
  by pat_completeness auto
termination
  by (relation "measure (\<lambda>(h, outdated, i, expired). nat \<lceil>i + 1\<rceil>)") auto

declare expired_walk.simps [simp del]

text \<open>Lines 317 to 325: the precise timing of the update's first segment, if it has any.\<close>

definition first_precise :: "heap \<Rightarrow> val \<Rightarrow> error + val option" where
  "first_precise h update =
     bnd (get h update ''segments'') (\<lambda>segs.
     bnd (get h segs ''length'') (\<lambda>n.
     if \<not> truthy n then Inr None else
     bnd (get_idx h segs 0) (\<lambda>first.
     bnd (get h first ''start'') (\<lambda>st.
     if st \<noteq> Undef then Inr (Some st) else
     bnd (get h first ''end'') (\<lambda>en.
     if en \<noteq> Undef then
       bnd (get h first ''duration'') (\<lambda>d. bnd (js_sub en d) (\<lambda>x. Inr (Some x)))
     else Inr None)))))"

definition updateMediaPlaylist :: "heap \<Rightarrow> loader \<Rightarrow> val \<Rightarrow> error + loader" where
  "updateMediaPlaylist h l update =
     (let outdated = ld_media l in
      bnd (get h (ld_master l) ''playlists'') (\<lambda>pls.
      bnd (get h update ''uri'') (\<lambda>u.
      bnd (get_key h pls u) (\<lambda>entry.
      let l1 = l\<lparr>ld_media := entry\<rparr> in
      if \<not> truthy outdated then Inr l1 else
      if \<not> truthy (ld_trackExpiredTime l1) then Inr l1 else
      bnd (get h outdated ''uri'') (\<lambda>ou.
      if \<not> strict_eq u ou then Inr l1 else
      bnd (first_precise h update) (\<lambda>precise.
      case precise of
        Some x \<Rightarrow> Inr (l1\<lparr>ld_expired := x\<rparr>)
      | None \<Rightarrow>
          bnd (get h update ''mediaSequence'') (\<lambda>uq.
          bnd (get h outdated ''mediaSequence'') (\<lambda>oq.
          bnd (js_sub uq oq) (\<lambda>d.
          bnd (js_sub d (N 1)) (\<lambda>i.
          case i of
            N r \<Rightarrow> bnd (expired_walk h outdated r (ld_expired l1)) (\<lambda>x. Inr (l1\<lparr>ld_expired := x\<rparr>))
          | _ \<Rightarrow> Inr l1))))))))))"

subsection \<open>Errors, refresh and switching\<close>

text \<open>\<open>startingState\<close> is \<open>None\<close> when the caller passes none.\<close>

definition onPlaylistRequestError :: "heap \<Rightarrow> loader \<Rightarrow> val \<Rightarrow> val \<Rightarrow> lstate option \<Rightarrow> error + loader" where
  "onPlaylistRequestError h l xhr url startingState =
     bnd (get h (js_or (ld_xhr l) xhr) ''bandwidth'') (\<lambda>bw.
     let l1 = l\<lparr>ld_bandwidth := bw, ld_xhr := Null\<rparr>;
         l2 = (case startingState of Some s \<Rightarrow> l1\<lparr>ld_state := s\<rparr> | None \<Rightarrow> l1) in
     bnd (get h (ld_master l2) ''playlists'') (\<lambda>pls.
     bnd (get_key h pls url) (\<lambda>entry.
     bnd (get h xhr ''status'') (\<lambda>status.
     bnd (js_add (S ''HLS playlist request error at URL: '') url) (\<lambda>message.
     bnd (get h xhr ''responseText'') (\<lambda>responseText.
     bnd (js_ge status (N 500)) (\<lambda>fatal.
     Inr (l2\<lparr>ld_error := Some \<lparr>err_playlist = entry, err_status = status, err_message = message,
                                err_responseText = responseText,
                                err_code = N (if fatal then 4 else 2)\<rparr>\<rparr>))))))))"

text \<open>
  \<open>haveMetadata(xhr, url)\<close>. The manifest parser is a collaborator outside the source
  file: \<open>parser\<close> is the parser object after \<open>push\<close> and \<open>end\<close>, with the parsed playlist
  in its property \<open>manifest\<close>. The timer handle that \<open>setTimeout\<close> returns is a number
  the model picks: the count of effects so far.
\<close>

definition haveMetadata :: "(val \<Rightarrow> val \<Rightarrow> val) \<Rightarrow> heap \<Rightarrow> loader \<Rightarrow> val \<Rightarrow> val \<Rightarrow> val \<Rightarrow> error + (heap \<times> loader)" where
  "haveMetadata rs h l xhr url parser =
     bnd (get h xhr ''bandwidth'') (\<lambda>bw.
     let l1 = l\<lparr>ld_bandwidth := bw, ld_state := HAVE_METADATA\<rparr> in
     bnd (get h parser ''mainfest'') (\<lambda>mainfest.
     bnd (put h mainfest ''uri'' url) (\<lambda>h1.
     bnd (get h1 parser ''manifest'') (\<lambda>manifest.
     bnd (updateMaster rs h1 (ld_master l1) manifest) (\<lambda>(update, h2).
     bnd (get h2 manifest ''targetDuration'') (\<lambda>td.
     bnd (js_mul (js_or td (N 10)) (N 1000)) (\<lambda>delay.
     let l2 = l1\<lparr>ld_refreshDelay := delay, ld_targetDuration := td\<rparr> in
     bnd (if truthy update then updateMediaPlaylist h2 (l2\<lparr>ld_master := update\<rparr>) manifest
          else bnd (js_div (ld_refreshDelay l2) (N 2)) (\<lambda>d. Inr (l2\<lparr>ld_refreshDelay := d\<rparr>))) (\<lambda>l3.
     bnd (get h2 (ld_media l3) ''endList'') (\<lambda>endList.
     if \<not> truthy endList then
       Inr (h2, (emit (SetTimeout (ld_refreshDelay l3)) (emit (ClearTimeout (ld_mediaUpdateTimeout l3)) l3))
                \<lparr>ld_mediaUpdateTimeout := N (real (length (ld_effects l3)))\<rparr>)
     else Inr (h2, l3))))))))))"

text \<open>Lines 402 to 406 and 432 to 434: abort the outstanding request.\<close>

definition abort_request :: "heap \<Rightarrow> loader \<Rightarrow> error + (heap \<times> loader)" where
  "abort_request h l =
     bnd (put h (ld_xhr l) ''onreadystatechange'' Null) (\<lambda>h1.
     Inr (h1, (emit (Abort (ld_xhr l)) l)\<lparr>ld_xhr := Null\<rparr>))"

text \<open>
  Lines 437 to 462: issue the request. The request handle is a new object that records
  the requested url, which line 427 reads back as \<open>this._xhr.url\<close>.
\<close>

definition request_playlist :: "(val \<Rightarrow> val \<Rightarrow> val) \<Rightarrow> heap \<Rightarrow> loader \<Rightarrow> val \<Rightarrow> error + (heap \<times> loader)" where
  "request_playlist rs h l playlist =
     (let l1 = (if truthy (ld_media l) then emit (Trigger ''mediachanging'') l else l) in
      bnd (get h (ld_master l1) ''uri'') (\<lambda>base.
      bnd (get h playlist ''uri'') (\<lambda>u.
      Inr (h @ [Obj [''url'' \<mapsto> rs base u]],
           (emit (Request (rs base u)) l1)\<lparr>ld_xhr := Ref (length h)\<rparr>))))"

text \<open>
  \<open>media(playlist)\<close>: the getter when the argument is falsy, the setter otherwise. The
  first component of the result is the value returned.
\<close>

definition media :: "(val \<Rightarrow> val \<Rightarrow> val) \<Rightarrow> heap \<Rightarrow> loader \<Rightarrow> val \<Rightarrow> error + (val \<times> heap \<times> loader)" where
  "media rs h l playlist0 =
     (if \<not> truthy playlist0 then Inr (ld_media l, h, l) else
      let l1 = (if ld_state l = HAVE_NOTHING
                then emit (LogError ''Cannot switch media playlist from HAVE_NOTHING'') l else l) in
      bnd (case playlist0 of
             S uri \<Rightarrow>
               bnd (get h (ld_master l1) ''playlists'') (\<lambda>pls.
               bnd (get_key h pls playlist0) (\<lambda>entry.
               Inr (entry, if \<not> truthy entry then emit (LogError (''Unknown playlist URI: '' @ uri)) l1 else l1)))
           | _ \<Rightarrow> Inr (playlist0, l1)) (\<lambda>(playlist, l2).
      bnd (if \<not> truthy (ld_media l2) then Inr True
           else bnd (get h playlist ''uri'') (\<lambda>u.
                bnd (get h (ld_media l2) ''uri'') (\<lambda>mu. Inr (\<not> strict_eq u mu)))) (\<lambda>mediaChange.
      bnd (get h (ld_master l2) ''playlists'') (\<lambda>pls.
      bnd (get h playlist ''uri'') (\<lambda>u.
      bnd (get_key h pls u) (\<lambda>entry.
      bnd (get h entry ''endList'') (\<lambda>endList.
      if truthy endList then
        bnd (if truthy (ld_xhr l2) then abort_request h l2 else Inr (h, l2)) (\<lambda>(h1, l3).
        let l4 = l3\<lparr>ld_state := HAVE_METADATA, ld_media := playlist\<rparr> in
        Inr (Undef, h1,
             if mediaChange then emit (Trigger ''mediachange'') (emit (Trigger ''mediachanging'') l4)
             else l4))
      else if \<not> mediaChange then Inr (Undef, h, l2)
      else
        (let l3 = l2\<lparr>ld_state := SWITCHING_MEDIA\<rparr> in
         if truthy (ld_xhr l3) then
           bnd (get h (ld_master l3) ''uri'') (\<lambda>base.
           bnd (get h (ld_xhr l3) ''url'') (\<lambda>url.
           if strict_eq (rs base u) url then Inr (Undef, h, l3) else
           bnd (abort_request h l3) (\<lambda>(h1, l4).
           bnd (request_playlist rs h1 l4 playlist) (\<lambda>(h2, l5). Inr (Undef, h2, l5)))))
         else bnd (request_playlist rs h l3 playlist) (\<lambda>(h2, l5). Inr (Undef, h2, l5))))))))))"

section \<open>Observations used in the statements\<close>

text \<open>
  \<open>obj_props h v\<close> is the property bag of the object that \<open>v\<close> refers to in the store \<open>h\<close>
  (\<open>None\<close> when \<open>v\<close> is no reference to an object). \<open>field_after\<close> reads a property in
  the store that a call leaves behind.
\<close>

definition obj_props :: "heap \<Rightarrow> val \<Rightarrow> props option" where
  "obj_props h v =
     (case v of
        Ref a \<Rightarrow> (case cell_at h a of Some (Obj p) \<Rightarrow> Some p | _ \<Rightarrow> None)
      | _ \<Rightarrow> None)"

definition field_after :: "error + (val \<times> heap) \<Rightarrow> val \<Rightarrow> string \<Rightarrow> error + val" where
  "field_after res x k = bnd res (\<lambda>(v, h'). get h' x k)"

text \<open>
  A store for the examples: the old segment list at address 0, the refreshed one at
  address 1, and four segment objects. The second old segment has its start time
  established; the refreshed list begins at that segment and gives it a new duration.
\<close>

definition seg_store :: heap where
  "seg_store =
     [Arr [Ref 2, Ref 3] Map.empty,
      Arr [Ref 4, Ref 5] Map.empty,
      Obj [''uri'' \<mapsto> S ''s0.ts'', ''duration'' \<mapsto> N 4],
      Obj [''uri'' \<mapsto> S ''s1.ts'', ''duration'' \<mapsto> N 4, ''start'' \<mapsto> N 4],
      Obj [''uri'' \<mapsto> S ''s1.ts'', ''duration'' \<mapsto> N 5],
      Obj [''uri'' \<mapsto> S ''s2.ts'', ''duration'' \<mapsto> N 4]]"

text \<open>
  A rendition as the specification describes it: an optional \<open>excludeUntil\<close> and a
  bandwidth. \<open>eligible\<close> follows the specification's words: \<open>excludeUntil\<close> is absent or
  not after the current time. \<open>rendition_at h v r\<close> says that \<open>v\<close> refers to a playlist
  object that carries \<open>r\<close>.
\<close>

type_synonym rendition = "real option \<times> real"

definition eligible :: "real \<Rightarrow> rendition \<Rightarrow> bool" where
  "eligible now r = (case fst r of None \<Rightarrow> True | Some t \<Rightarrow> t \<le> now)"

definition rendition_at :: "heap \<Rightarrow> val \<Rightarrow> rendition \<Rightarrow> bool" where
  "rendition_at h v r =
     (case v of
        Ref a \<Rightarrow>
          (case cell_at h a of
             Some (Obj ps) \<Rightarrow>
               ps ''excludeUntil'' = map_option N (fst r) \<and>
               (case ps ''attributes'' of
                  Some (Ref b) \<Rightarrow>
                    (case cell_at h b of
                       Some (Obj qs) \<Rightarrow> qs ''BANDWIDTH'' = Some (N (snd r))
                     | _ \<Rightarrow> False)
                | _ \<Rightarrow> False)
           | _ \<Rightarrow> False)
      | _ \<Rightarrow> False)"

text \<open>
  A master with the four renditions of the specification's example: 500k excluded until
  time 2000, 800k twice, and 1200k.
\<close>

definition rendition_store :: heap where
  "rendition_store =
     [Obj [''playlists'' \<mapsto> Ref 1],
      Arr [Ref 2, Ref 4, Ref 6, Ref 8] Map.empty,
      Obj [''uri'' \<mapsto> S ''low.m3u8'', ''excludeUntil'' \<mapsto> N 2000, ''attributes'' \<mapsto> Ref 3],
      Obj [''BANDWIDTH'' \<mapsto> N 500000],
      Obj [''uri'' \<mapsto> S ''mid1.m3u8'', ''attributes'' \<mapsto> Ref 5],
      Obj [''BANDWIDTH'' \<mapsto> N 800000],
      Obj [''uri'' \<mapsto> S ''mid2.m3u8'', ''attributes'' \<mapsto> Ref 7],
      Obj [''BANDWIDTH'' \<mapsto> N 800000],
      Obj [''uri'' \<mapsto> S ''high.m3u8'', ''attributes'' \<mapsto> Ref 9],
      Obj [''BANDWIDTH'' \<mapsto> N 1200000]]"

text \<open>
  A loader that holds the master at address 0, with nothing else set.
\<close>

definition idle_loader :: loader where
  "idle_loader =
     \<lparr>ld_state = HAVE_METADATA, ld_master = Ref 0, ld_media = Null, ld_xhr = Null,
      ld_bandwidth = Null, ld_expired = N 0, ld_trackExpiredTime = Undef,
      ld_refreshDelay = Null, ld_targetDuration = Undef, ld_mediaUpdateTimeout = Null,
      ld_error = None, ld_effects = []\<rparr>"

text \<open>
  The effects that are fetches.
\<close>

definition is_request :: "effect \<Rightarrow> bool" where
  "is_request e = (case e of Request u \<Rightarrow> True | _ \<Rightarrow> False)"

text \<open>
  A master with \<open>a.m3u8\<close>, fully loaded (\<open>endList\<close>), and \<open>b.m3u8\<close>, and a request for
  \<open>b.m3u8\<close> at address 4. The loader is in the middle of a switch from \<open>a\<close> to \<open>b\<close>.
\<close>

definition switch_store :: heap where
  "switch_store =
     [Obj [''uri'' \<mapsto> S ''http://h/master.m3u8'', ''playlists'' \<mapsto> Ref 1],
      Arr [Ref 2, Ref 3] [''a.m3u8'' \<mapsto> Ref 2, ''b.m3u8'' \<mapsto> Ref 3],
      Obj [''uri'' \<mapsto> S ''a.m3u8'', ''endList'' \<mapsto> B True],
      Obj [''uri'' \<mapsto> S ''b.m3u8''],
      Obj [''url'' \<mapsto> S ''http://h/b.m3u8'', ''bandwidth'' \<mapsto> N 5000000]]"

definition switching_loader :: loader where
  "switching_loader = idle_loader\<lparr>ld_state := SWITCHING_MEDIA, ld_media := Ref 2, ld_xhr := Ref 4\<rparr>"

text \<open>
  A segment as the live window tracker sees it: optional precise end, optional precise
  start, duration. \<open>seg_at h v i\<close> says that the array entry \<open>v\<close> is a segment object that
  carries \<open>i\<close>, or is missing (\<open>undefined\<close>) when \<open>i\<close> is \<open>None\<close>.
\<close>

type_synonym seg_info = "real option \<times> real option \<times> real"

definition opt_num :: "real option \<Rightarrow> val" where
  "opt_num x = (case x of None \<Rightarrow> Undef | Some r \<Rightarrow> N r)"

definition seg_at :: "heap \<Rightarrow> val \<Rightarrow> seg_info option \<Rightarrow> bool" where
  "seg_at h v i =
     (case i of
        None \<Rightarrow> v = Undef
      | Some (en, st, d) \<Rightarrow>
          (case obj_props h v of
             Some ps \<Rightarrow> lookup ps ''end'' = opt_num en \<and> lookup ps ''start'' = opt_num st
                        \<and> lookup ps ''duration'' = N d
           | None \<Rightarrow> False))"

text \<open>
  The tracker as the specification words it. \<open>tracker_walk\<close> takes the segments in the
  order of the walk: a missing segment adds the target duration, a precise end gives the
  result, else a precise start plus the duration gives the result, else the duration is
  added. \<open>tracker_spec\<close> tries the update's first segment before the walk. \<open>dropped infos n\<close>
  are the old entries at the indices \<open>n - 1\<close> down to 0, missing past the end of the list.
\<close>

fun tracker_walk :: "real \<Rightarrow> seg_info option list \<Rightarrow> real \<Rightarrow> real" where
  "tracker_walk td [] e = e"
| "tracker_walk td (None # rest) e = tracker_walk td rest (e + td)"
| "tracker_walk td (Some (Some en, st, d) # rest) e = en"
| "tracker_walk td (Some (None, Some st, d) # rest) e = st + d"
| "tracker_walk td (Some (None, None, d) # rest) e = tracker_walk td rest (e + d)"

fun tracker_spec :: "seg_info option \<Rightarrow> real \<Rightarrow> seg_info option list \<Rightarrow> real \<Rightarrow> real" where
  "tracker_spec (Some (en, Some st, d)) td walked e = st"
| "tracker_spec (Some (Some en, None, d)) td walked e = en - d"
| "tracker_spec first td walked e = tracker_walk td walked e"

definition dropped :: "seg_info option list \<Rightarrow> nat \<Rightarrow> seg_info option list" where
  "dropped infos n = map (\<lambda>j. if j < length infos then infos ! j else None) (rev [0..<n])"

text \<open>
  The specification's example: the old playlist with sequence 10 and three segments of 4
  seconds, and an update with sequence 12.
\<close>

definition live_store :: heap where
  "live_store =
     [Obj [''uri'' \<mapsto> S ''http://h/master.m3u8'', ''playlists'' \<mapsto> Ref 1],
      Arr [Ref 2] [''a.m3u8'' \<mapsto> Ref 2],
      Obj [''uri'' \<mapsto> S ''a.m3u8'', ''mediaSequence'' \<mapsto> N 10, ''targetDuration'' \<mapsto> N 6,
           ''segments'' \<mapsto> Ref 3],
      Arr [Ref 4, Ref 5, Ref 6] Map.empty,
      Obj [''uri'' \<mapsto> S ''s10.ts'', ''duration'' \<mapsto> N 4],
      Obj [''uri'' \<mapsto> S ''s11.ts'', ''duration'' \<mapsto> N 4],
      Obj [''uri'' \<mapsto> S ''s12.ts'', ''duration'' \<mapsto> N 4],
      Obj [''uri'' \<mapsto> S ''a.m3u8'', ''mediaSequence'' \<mapsto> N 12, ''targetDuration'' \<mapsto> N 6,
           ''segments'' \<mapsto> Ref 8],
      Arr [Ref 9] Map.empty,
      Obj [''uri'' \<mapsto> S ''s12.ts'', ''duration'' \<mapsto> N 4]]"

definition tracking_loader :: loader where
  "tracking_loader = idle_loader\<lparr>ld_media := Ref 2, ld_trackExpiredTime := B True, ld_expired := N 100\<rparr>"

text \<open>
  A URI resolver for the examples, and two more observations: the elements of a
  playlist's segment list, and of a returned array, in the store a call leaves behind.
\<close>

definition join_url :: "val \<Rightarrow> val \<Rightarrow> val" where
  "join_url base u = (case base of S b \<Rightarrow> (case u of S x \<Rightarrow> S (b @ ''/'' @ x) | _ \<Rightarrow> Undef) | _ \<Rightarrow> Undef)"

definition segments_after :: "error + (val \<times> heap) \<Rightarrow> val \<Rightarrow> error + val list" where
  "segments_after res playlist = bnd res (\<lambda>(v, h'). bnd (get h' playlist ''segments'') (array_elems h'))"

definition result_elems :: "error + (val \<times> heap) \<Rightarrow> error + val list" where
  "result_elems res = bnd res (\<lambda>(v, h'). array_elems h' v)"

text \<open>
  A live refresh: the master at 0 with the playlist \<open>a.m3u8\<close> at 2 (sequence 10, segments
  at 4 and 5, the second with its start time established), the parsed update at 6
  (sequence 11, segments at 8 and 9), the response at 10 and the parser object at 11.
\<close>

definition master_store :: heap where
  "master_store =
     [Obj [''uri'' \<mapsto> S ''http://h/master.m3u8'', ''playlists'' \<mapsto> Ref 1],
      Arr [Ref 2] [''a.m3u8'' \<mapsto> Ref 2],
      Obj [''uri'' \<mapsto> S ''a.m3u8'', ''resolvedUri'' \<mapsto> S ''http://h'', ''mediaSequence'' \<mapsto> N 10,
           ''targetDuration'' \<mapsto> N 6, ''segments'' \<mapsto> Ref 3],
      Arr [Ref 4, Ref 5] Map.empty,
      Obj [''uri'' \<mapsto> S ''s10.ts'', ''duration'' \<mapsto> N 4, ''resolvedUri'' \<mapsto> S ''http://cdn/s10.ts''],
      Obj [''uri'' \<mapsto> S ''s11.ts'', ''duration'' \<mapsto> N 4, ''resolvedUri'' \<mapsto> S ''http://cdn/s11.ts'',
           ''start'' \<mapsto> N 44],
      Obj [''uri'' \<mapsto> S ''a.m3u8'', ''mediaSequence'' \<mapsto> N 11, ''targetDuration'' \<mapsto> N 6,
           ''segments'' \<mapsto> Ref 7],
      Arr [Ref 8, Ref 9] Map.empty,
      Obj [''uri'' \<mapsto> S ''s11.ts'', ''duration'' \<mapsto> N 4],
      Obj [''uri'' \<mapsto> S ''s12.ts'', ''duration'' \<mapsto> N 4],
      Obj [''bandwidth'' \<mapsto> N 5000000, ''responseText'' \<mapsto> S ''#EXTM3U''],
      Obj [''manifest'' \<mapsto> Ref 6]]"

text \<open>
  What a master and an update look like when they come from the manifest parser and the
  loader. \<open>playlist_ok\<close>: a playlist object whose \<open>segments\<close>, if present, is an array.
  \<open>segment_ok\<close>: a segment object whose \<open>key\<close> and \<open>map\<close>, if present, are objects.
\<close>

definition is_obj :: "heap \<Rightarrow> val \<Rightarrow> bool" where
  "is_obj h v = (obj_props h v \<noteq> None)"

definition arr_elems :: "heap \<Rightarrow> val \<Rightarrow> val list option" where
  "arr_elems h v =
     (case v of
        Ref a \<Rightarrow> (case cell_at h a of Some (Arr es ps) \<Rightarrow> Some es | _ \<Rightarrow> None)
      | _ \<Rightarrow> None)"

definition opt_ok :: "(val \<Rightarrow> bool) \<Rightarrow> val option \<Rightarrow> bool" where
  "opt_ok P x = (case x of None \<Rightarrow> True | Some v \<Rightarrow> P v)"

definition playlist_ok :: "heap \<Rightarrow> val \<Rightarrow> bool" where
  "playlist_ok h v =
     (case obj_props h v of
        Some ps \<Rightarrow> opt_ok (\<lambda>x. arr_elems h x \<noteq> None) (ps ''segments'')
      | None \<Rightarrow> False)"

definition segment_ok :: "heap \<Rightarrow> val \<Rightarrow> bool" where
  "segment_ok h v =
     (case obj_props h v of
        Some ps \<Rightarrow> opt_ok (is_obj h) (ps ''key'') \<and> opt_ok (is_obj h) (ps ''map'')
      | None \<Rightarrow> False)"

text \<open>
  The number of segments of a playlist, \<open>None\<close> when it has no segment list, and the
  specification's test for an update that changes nothing: the segment counts are equal
  and the media sequence numbers are equal.
\<close>

definition seg_count :: "heap \<Rightarrow> val \<Rightarrow> nat option" where
  "seg_count h v =
     (case obj_props h v of
        Some ps \<Rightarrow> (case ps ''segments'' of Some x \<Rightarrow> map_option length (arr_elems h x) | None \<Rightarrow> None)
      | None \<Rightarrow> None)"

definition field_of :: "heap \<Rightarrow> val \<Rightarrow> string \<Rightarrow> val" where
  "field_of h v k = (case obj_props h v of Some ps \<Rightarrow> lookup ps k | None \<Rightarrow> Undef)"

definition no_update :: "heap \<Rightarrow> val \<Rightarrow> val \<Rightarrow> bool" where
  "no_update h old new =
     (seg_count h old = seg_count h new
      \<and> field_of h old ''mediaSequence'' = field_of h new ''mediaSequence'')"

text \<open>
  \<open>ru_only h h'\<close>: the store \<open>h'\<close> differs from \<open>h\<close> at most in \<open>resolvedUri\<close> properties of
  objects.
\<close>

definition ru_only :: "heap \<Rightarrow> heap \<Rightarrow> bool" where
  "ru_only h h' =
     (length h' = length h \<and>
      (\<forall>a<length h. h' ! a = h ! a \<or>
         (\<exists>q q'. h ! a = Obj q \<and> h' ! a = Obj q' \<and> (\<forall>k. k \<noteq> ''resolvedUri'' \<longrightarrow> q' k = q k))))"

text \<open>
  The shape of the store that the merge loop keeps: the master at \<open>m\<close> with its playlist
  array at \<open>pa\<close> holding \<open>pes\<close>, the update at \<open>md\<close> with uri \<open>u\<close>, sequence number \<open>q\<close> and
  its segment array at \<open>sa\<close> holding \<open>ses\<close>. The playlist objects are not the master, the
  update or one of the update's segments.
\<close>

definition merge_inv :: "heap \<Rightarrow> addr \<Rightarrow> addr \<Rightarrow> val list \<Rightarrow> addr \<Rightarrow> string \<Rightarrow> addr \<Rightarrow> val list \<Rightarrow> real \<Rightarrow> bool" where
  "merge_inv h m pa pes md u sa ses q =
     ((case obj_props h (Ref m) of Some mp \<Rightarrow> mp ''playlists'' = Some (Ref pa) | None \<Rightarrow> False)
      \<and> arr_elems h (Ref pa) = Some pes
      \<and> list_all (playlist_ok h) pes
      \<and> (case obj_props h (Ref md) of
            Some dp \<Rightarrow> dp ''uri'' = Some (S u) \<and> dp ''segments'' = Some (Ref sa)
                       \<and> dp ''mediaSequence'' = Some (N q)
          | None \<Rightarrow> False)
      \<and> \<not> array_key u
      \<and> arr_elems h (Ref sa) = Some ses
      \<and> list_all (segment_ok h) ses
      \<and> Ref m \<notin> set pes \<and> Ref md \<notin> set pes \<and> set pes \<inter> set ses = {})"

section \<open>Properties of the segment reconciler\<close>

lemma nat_index_real [simp]: "nat_index (real n) = Some n"
  by (simp add: nat_index_def)

lemma get_idx_Arr:
  "a < length H \<Longrightarrow> H ! a = Arr es ps \<Longrightarrow>
     get_idx H (Ref a) (real n) = Inr (if n < length es then es ! n else Undef)"
  by (simp add: cell_at_def)

lemma object_assign_Obj:
  "a < length H \<Longrightarrow> H ! a = Obj p \<Longrightarrow> b < length H \<Longrightarrow> H ! b = Obj q \<Longrightarrow>
     object_assign H (Ref a) (Ref b) = Inr (Ref a, H[a := Obj (p ++ q)])"
  by (simp add: cell_at_def)

lemma put_idx_Arr:
  "a < length H \<Longrightarrow> H ! a = Arr es ps \<Longrightarrow> n < length es \<Longrightarrow>
     put_idx H (Ref a) (real n) x = Inr (H[a := Arr (es[n := x]) ps])"
  by (simp add: cell_at_def)

lemma seg_loop_done: "\<not> i < len \<Longrightarrow> seg_loop H original result off len i = Inr H"
  by (simp add: seg_loop.simps)

lemma seg_loop_step:
  assumes "i < len"
    and "get_idx H original i = Inr t"
    and "get_idx H result (i - off) = Inr s"
    and "object_assign H t s = Inr (v, H1)"
    and "put_idx H1 result (i - off) v = Inr H2"
  shows "seg_loop H original result off len i = seg_loop H2 original result off len (i + 1)"
  using assms by (subst seg_loop.simps) simp

lemma seg_loop_run:
  assumes "r < length H" "H ! r = Arr res rp" "oa < length H" "H ! oa = Arr oes op" "oa \<noteq> r"
    and "m \<le> length res" "k + m \<le> length oes" "t \<le> m"
    and tg: "\<forall>j. t \<le> j \<and> j < m \<longrightarrow> (\<exists>a p. oes ! (k + j) = Ref a \<and> a < length H \<and> H ! a = Obj p)"
    and sr: "\<forall>j. t \<le> j \<and> j < m \<longrightarrow> (\<exists>b q. res ! j = Ref b \<and> b < length H \<and> H ! b = Obj q)"
    and d1: "\<forall>i j. t \<le> i \<and> i < m \<and> t \<le> j \<and> j < m \<and> oes ! (k + i) = oes ! (k + j) \<longrightarrow> i = j"
    and d2: "\<forall>i j. t \<le> i \<and> i < m \<and> t \<le> j \<and> j < m \<and> oes ! (k + i) = res ! j \<longrightarrow> i = j"
  shows "\<exists>H'. seg_loop H (Ref oa) (Ref r) (real k) (real (k + m)) (real (k + t)) = Inr H'
      \<and> length H' = length H
      \<and> H' ! r = Arr (take t res @ map (\<lambda>j. oes ! (k + j)) [t..<m] @ drop m res) rp
      \<and> (\<forall>j. t \<le> j \<and> j < m \<longrightarrow>
            obj_props H' (oes ! (k + j)) =
              Some (the (obj_props H (oes ! (k + j))) ++ the (obj_props H (res ! j))))
      \<and> (\<forall>a. a < length H \<and> a \<noteq> r \<and> (\<forall>j. t \<le> j \<and> j < m \<longrightarrow> oes ! (k + j) \<noteq> Ref a)
            \<longrightarrow> H' ! a = H ! a)"
  using assms
proof (induction "m - t" arbitrary: t H res)
  case 0
  from "0.hyps" "0.prems"(8) have "t = m" by simp
  then show ?case
    using "0.prems"(2) by (auto simp add: seg_loop_done)
next
  case (Suc d)
  from Suc.hyps(2) have tm: "t < m" by simp
  from Suc.prems(9) tm obtain a p where a: "oes ! (k + t) = Ref a" "a < length H" "H ! a = Obj p"
    by blast
  from Suc.prems(10) tm obtain b q where b: "res ! t = Ref b" "b < length H" "H ! b = Obj q"
    by blast
  have ar: "a \<noteq> r" using a Suc.prems(2) by auto
  have aoa: "a \<noteq> oa" using a Suc.prems(4) by auto
  define H1 where "H1 = H[a := Obj (p ++ q)]"
  define res' where "res' = res[t := Ref a]"
  define H2 where "H2 = H1[r := Arr res' rp]"
  have g1: "get_idx H (Ref oa) (real (k + t)) = Inr (Ref a)"
    using get_idx_Arr[OF Suc.prems(3,4), of "k + t"] a tm Suc.prems(7) by simp
  have g2: "get_idx H (Ref r) (real (k + t) - real k) = Inr (Ref b)"
    using get_idx_Arr[OF Suc.prems(1,2), of t] b tm Suc.prems(6) by simp
  have g3: "object_assign H (Ref a) (Ref b) = Inr (Ref a, H1)"
    unfolding H1_def by (rule object_assign_Obj[OF a(2,3) b(2,3)])
  have g4: "put_idx H1 (Ref r) (real (k + t) - real k) (Ref a) = Inr H2"
    using put_idx_Arr[of r H1 res rp t "Ref a"] Suc.prems(1,2,6) tm ar
    by (simp add: H1_def H2_def res'_def)
  have step: "seg_loop H (Ref oa) (Ref r) (real k) (real (k + m)) (real (k + t))
      = seg_loop H2 (Ref oa) (Ref r) (real k) (real (k + m)) (real (k + Suc t))"
    using seg_loop_step[OF _ g1 g2 g3 g4, of "real (k + m)"] tm
    by (simp add: add.commute add.left_commute)
  have len2: "length H2 = length H" by (simp add: H2_def H1_def)
  have H2r: "H2 ! r = Arr res' rp" using Suc.prems(1) by (simp add: H2_def H1_def)
  have H2oa: "H2 ! oa = Arr oes op"
    using Suc.prems(3,4,5) aoa by (simp add: H2_def H1_def)
  have H2other: "\<And>c. c < length H \<Longrightarrow> c \<noteq> r \<Longrightarrow> c \<noteq> a \<Longrightarrow> H2 ! c = H ! c"
    by (simp add: H2_def H1_def)
  have H2a: "H2 ! a = Obj (p ++ q)" using a(2) ar by (simp add: H2_def H1_def)
  have tg': "\<forall>j. Suc t \<le> j \<and> j < m \<longrightarrow> (\<exists>a' p'. oes ! (k + j) = Ref a' \<and> a' < length H2 \<and> H2 ! a' = Obj p')"
  proof (intro allI impI)
    fix j assume j: "Suc t \<le> j \<and> j < m"
    then have jt: "t \<le> j \<and> j < m" "j \<noteq> t" by auto
    with Suc.prems(9)[rule_format, of j] obtain a' p' where a': "oes ! (k + j) = Ref a'" "a' < length H" "H ! a' = Obj p'"
      by blast
    have "a' \<noteq> r" using a' Suc.prems(2) by auto
    moreover have "a' \<noteq> a" using Suc.prems(11)[rule_format, of t j] a a' jt tm by auto
    ultimately show "\<exists>a' p'. oes ! (k + j) = Ref a' \<and> a' < length H2 \<and> H2 ! a' = Obj p'"
      using a' H2other len2 by auto
  qed
  have sr': "\<forall>j. Suc t \<le> j \<and> j < m \<longrightarrow> (\<exists>b' q'. res' ! j = Ref b' \<and> b' < length H2 \<and> H2 ! b' = Obj q')"
  proof (intro allI impI)
    fix j assume j: "Suc t \<le> j \<and> j < m"
    then have jt: "t \<le> j \<and> j < m" "j \<noteq> t" by auto
    with Suc.prems(10)[rule_format, of j] obtain b' q' where b': "res ! j = Ref b'" "b' < length H" "H ! b' = Obj q'"
      by blast
    have "b' \<noteq> r" using b' Suc.prems(2) by auto
    have "res' ! j = Ref b'" using b' j by (simp add: res'_def)
    moreover have "\<exists>q'. H2 ! b' = Obj q'"
      using H2other[of b'] H2a b' \<open>b' \<noteq> r\<close> by (cases "b' = a") auto
    ultimately show "\<exists>b' q'. res' ! j = Ref b' \<and> b' < length H2 \<and> H2 ! b' = Obj q'"
      using b' len2 by auto
  qed
  have d1': "\<forall>i j. Suc t \<le> i \<and> i < m \<and> Suc t \<le> j \<and> j < m \<and> oes ! (k + i) = oes ! (k + j) \<longrightarrow> i = j"
  proof (intro allI impI)
    fix i j assume "Suc t \<le> i \<and> i < m \<and> Suc t \<le> j \<and> j < m \<and> oes ! (k + i) = oes ! (k + j)"
    then show "i = j" using Suc.prems(11)[rule_format, of i j] by simp
  qed
  have d2': "\<forall>i j. Suc t \<le> i \<and> i < m \<and> Suc t \<le> j \<and> j < m \<and> oes ! (k + i) = res' ! j \<longrightarrow> i = j"
  proof (intro allI impI)
    fix i j assume ij: "Suc t \<le> i \<and> i < m \<and> Suc t \<le> j \<and> j < m \<and> oes ! (k + i) = res' ! j"
    then have "res' ! j = res ! j" by (simp add: res'_def)
    with ij Suc.prems(12)[rule_format, of i j] show "i = j" by simp
  qed
  have "d = m - Suc t" using Suc.hyps(2) by simp
  from Suc.hyps(1)[OF this _ H2r _ H2oa Suc.prems(5) _ Suc.prems(7) _ tg' sr' d1' d2']
  obtain H' where H':
    "seg_loop H2 (Ref oa) (Ref r) (real k) (real (k + m)) (real (k + Suc t)) = Inr H'"
    "length H' = length H2"
    "H' ! r = Arr (take (Suc t) res' @ map (\<lambda>j. oes ! (k + j)) [Suc t..<m] @ drop m res') rp"
    "\<forall>j. Suc t \<le> j \<and> j < m \<longrightarrow>
            obj_props H' (oes ! (k + j)) =
              Some (the (obj_props H2 (oes ! (k + j))) ++ the (obj_props H2 (res' ! j)))"
    "\<forall>a. a < length H2 \<and> a \<noteq> r \<and> (\<forall>j. Suc t \<le> j \<and> j < m \<longrightarrow> oes ! (k + j) \<noteq> Ref a)
            \<longrightarrow> H' ! a = H2 ! a"
    using Suc.prems(1,3,6) tm len2 by (auto simp: res'_def)
  have c1: "take (Suc t) res' @ map (\<lambda>j. oes ! (k + j)) [Suc t..<m] @ drop m res'
      = take t res @ map (\<lambda>j. oes ! (k + j)) [t..<m] @ drop m res"
  proof -
    have "take (Suc t) res' = take t res @ [Ref a]"
      using tm Suc.prems(6) by (simp add: res'_def take_Suc_conv_app_nth)
    moreover have "drop m res' = drop m res" using tm by (simp add: res'_def)
    moreover have "[t..<m] = t # [Suc t..<m]" using tm by (simp add: upt_conv_Cons)
    ultimately show ?thesis using a by simp
  qed
  have anot: "\<forall>j. Suc t \<le> j \<and> j < m \<longrightarrow> oes ! (k + j) \<noteq> Ref a"
  proof (intro allI impI)
    fix j assume "Suc t \<le> j \<and> j < m"
    then show "oes ! (k + j) \<noteq> Ref a" using Suc.prems(11)[rule_format, of t j] a tm by auto
  qed
  have H'a: "H' ! a = Obj (p ++ q)"
    using H'(5)[rule_format, of a] anot a(2) ar len2 H2a by simp
  have c2: "\<forall>j. t \<le> j \<and> j < m \<longrightarrow>
            obj_props H' (oes ! (k + j)) =
              Some (the (obj_props H (oes ! (k + j))) ++ the (obj_props H (res ! j)))"
  proof (intro allI impI)
    fix j assume j: "t \<le> j \<and> j < m"
    show "obj_props H' (oes ! (k + j)) = Some (the (obj_props H (oes ! (k + j))) ++ the (obj_props H (res ! j)))"
    proof (cases "j = t")
      case True
      then show ?thesis
        using a b H'a H'(2) len2 by (simp add: obj_props_def cell_at_def)
    next
      case False
      then have j': "Suc t \<le> j \<and> j < m" using j by simp
      from tg' j' obtain a' p' where a': "oes ! (k + j) = Ref a'" "a' < length H2" by blast
      have a'a: "a' \<noteq> a" using anot j' a' by auto
      have a'r: "a' \<noteq> r" using Suc.prems(9)[rule_format, of j] j a' Suc.prems(2) by auto
      from Suc.prems(10)[rule_format, of j] j obtain b' q' where b': "res ! j = Ref b'" "b' < length H" "H ! b' = Obj q'"
        by blast
      have b'a: "b' \<noteq> a" using Suc.prems(12)[rule_format, of t j] a b' j tm False by auto
      have b'r: "b' \<noteq> r" using b' Suc.prems(2) by auto
      have "obj_props H2 (oes ! (k + j)) = obj_props H (oes ! (k + j))"
        using a' a'a a'r H2other[of a'] len2 by (simp add: obj_props_def cell_at_def)
      moreover have "obj_props H2 (res' ! j) = obj_props H (res ! j)"
        using b' b'a b'r H2other[of b'] len2 False by (simp add: obj_props_def cell_at_def res'_def)
      ultimately show ?thesis using H'(4) j' by simp
    qed
  qed
  have c3: "\<forall>c. c < length H \<and> c \<noteq> r \<and> (\<forall>j. t \<le> j \<and> j < m \<longrightarrow> oes ! (k + j) \<noteq> Ref c)
            \<longrightarrow> H' ! c = H ! c"
  proof (intro allI impI)
    fix c assume c: "c < length H \<and> c \<noteq> r \<and> (\<forall>j. t \<le> j \<and> j < m \<longrightarrow> oes ! (k + j) \<noteq> Ref c)"
    then have "c \<noteq> a" using a tm by auto
    moreover have "H' ! c = H2 ! c" using H'(5)[rule_format, of c] c len2 by auto
    ultimately show "H' ! c = H ! c" using H2other c by simp
  qed
  show ?case
    using step H'(1,2,3) len2 c1 c2 c3 by simp
qed


lemma obj_props_append_Arr [simp]: "obj_props (h @ [Arr es ps]) v = obj_props h v"
  by (cases v) (auto simp: obj_props_def cell_at_def nth_append split: option.splits cell.splits)

lemma min_real_window: "k \<le> a \<Longrightarrow> min (real a) (real b + real k) = real (k + min (a - k) b)"
proof -
  assume "k \<le> a"
  then have "min a (b + k) = k + min (a - k) b" by arith
  then have "real (min a (b + k)) = real (k + min (a - k) b)" by simp
  then show ?thesis by (simp only: of_nat_min of_nat_add)
qed

lemma get_length_Arr:
  "a < length H \<Longrightarrow> H ! a = Arr es ps \<Longrightarrow> get H (Ref a) ''length'' = Inr (N (real (length es)))"
  by (simp add: cell_at_def)

lemma arith_N [simp]: "arith f (N x) (N y) = Inr (N (f x y))"
  by (simp add: arith_def)

lemma math_min_N [simp]: "math_min (N x) (N y) = Inr (N (min x y))"
  by (simp add: math_min_def)

lemma as_counter_nat [simp]: "as_counter (js_or (N (real k)) (N 0)) = Inr (real k)"
  by (simp add: as_counter_def js_or_def)

lemma obj_props_SomeD:
  "obj_props h v = Some p \<Longrightarrow> \<exists>a. v = Ref a \<and> a < length h \<and> h ! a = Obj p"
  by (auto simp: obj_props_def cell_at_def split: val.splits option.splits cell.splits if_splits)

text \<open>
  Claim C1. Let the original list have \<open>oes\<close> and the update list \<open>ues\<close> as elements, and
  let the offset \<open>k\<close> be at most the length of the original. The call returns a new array
  with as many elements as the update. Position \<open>j\<close> of the overlap
  (\<open>k + j < length oes\<close>, \<open>j < length ues\<close>) holds the object \<open>original[k + j]\<close>, and
  every field \<open>f\<close> of it now has the update's value where \<open>update[j]\<close> sets \<open>f\<close>, and the
  value it had on \<open>original[k + j]\<close> otherwise. Every other position holds the update's
  segment, with its fields as they were. The lists are lists of segment objects as the
  manifest parser makes them: the overlapping entries refer to objects, no object stands
  at two overlapping positions of the original, and no overlapping original object is
  also an entry of the update list (other than at its own position).
\<close>

theorem updateSegments_overlay:
  assumes oa: "cell_at h oa = Some (Arr oes op)"
    and ua: "cell_at h ua = Some (Arr ues up)"
    and k: "k \<le> length oes"
    and m: "m = min (length oes - k) (length ues)"
    and tg: "\<forall>j<m. obj_props h (oes ! (k + j)) \<noteq> None"
    and sr: "\<forall>j<m. obj_props h (ues ! j) \<noteq> None"
    and d1: "\<forall>i<m. \<forall>j<m. oes ! (k + i) = oes ! (k + j) \<longrightarrow> i = j"
    and d2: "\<forall>i<m. \<forall>j<length ues. oes ! (k + i) = ues ! j \<longrightarrow> i = j"
  shows "\<exists>res h'. updateSegments h (Ref oa) (Ref ua) (N (real k)) = Inr (Ref (length h), h')
      \<and> cell_at h' (length h) = Some (Arr res Map.empty)
      \<and> length res = length ues
      \<and> (\<forall>j<length ues.
            if j < m
            then res ! j = oes ! (k + j)
               \<and> (\<exists>po pu pr. obj_props h (oes ! (k + j)) = Some po
                    \<and> obj_props h (ues ! j) = Some pu
                    \<and> obj_props h' (res ! j) = Some pr
                    \<and> (\<forall>f. pr f = (case pu f of Some x \<Rightarrow> Some x | None \<Rightarrow> po f)))
            else res ! j = ues ! j \<and> obj_props h' (ues ! j) = obj_props h (ues ! j))"
proof -
  define H where "H = h @ [Arr ues Map.empty]"
  define r where "r = length h"
  have oal: "oa < length h" "h ! oa = Arr oes op"
    using oa by (auto simp: cell_at_def split: if_splits)
  have ual: "ua < length h" "h ! ua = Arr ues up"
    using ua by (auto simp: cell_at_def split: if_splits)
  have p1: "r < length H" "H ! r = Arr ues Map.empty" "oa < length H" "H ! oa = Arr oes op" "oa \<noteq> r"
    using oal by (auto simp: H_def r_def nth_append)
  have p2: "m \<le> length ues" "k + m \<le> length oes" "0 \<le> m"
    using m k by auto
  have tg': "\<forall>j. 0 \<le> j \<and> j < m \<longrightarrow> (\<exists>a p. oes ! (k + j) = Ref a \<and> a < length H \<and> H ! a = Obj p)"
  proof (intro allI impI)
    fix j assume "0 \<le> j \<and> j < m"
    with tg obtain p where "obj_props h (oes ! (k + j)) = Some p" by auto
    from obj_props_SomeD[OF this] show "\<exists>a p. oes ! (k + j) = Ref a \<and> a < length H \<and> H ! a = Obj p"
      by (auto simp: H_def nth_append)
  qed
  have sr': "\<forall>j. 0 \<le> j \<and> j < m \<longrightarrow> (\<exists>b q. ues ! j = Ref b \<and> b < length H \<and> H ! b = Obj q)"
  proof (intro allI impI)
    fix j assume "0 \<le> j \<and> j < m"
    with sr obtain q where "obj_props h (ues ! j) = Some q" by auto
    from obj_props_SomeD[OF this] show "\<exists>b q. ues ! j = Ref b \<and> b < length H \<and> H ! b = Obj q"
      by (auto simp: H_def nth_append)
  qed
  have d1': "\<forall>i j. 0 \<le> i \<and> i < m \<and> 0 \<le> j \<and> j < m \<and> oes ! (k + i) = oes ! (k + j) \<longrightarrow> i = j"
    using d1 by blast
  have d2': "\<forall>i j. 0 \<le> i \<and> i < m \<and> 0 \<le> j \<and> j < m \<and> oes ! (k + i) = ues ! j \<longrightarrow> i = j"
    using d2 p2(1) by (meson less_le_trans)
  from seg_loop_run[OF p1 p2 tg' sr' d1' d2']
  obtain H' where H':
    "seg_loop H (Ref oa) (Ref r) (real k) (real (k + m)) (real k) = Inr H'"
    "length H' = length H"
    "H' ! r = Arr (map (\<lambda>j. oes ! (k + j)) [0..<m] @ drop m ues) Map.empty"
    "\<forall>j. j < m \<longrightarrow> obj_props H' (oes ! (k + j)) =
        Some (the (obj_props H (oes ! (k + j))) ++ the (obj_props H (ues ! j)))"
    "\<forall>a. a < length H \<and> a \<noteq> r \<and> (\<forall>j. j < m \<longrightarrow> oes ! (k + j) \<noteq> Ref a) \<longrightarrow> H' ! a = H ! a"
    by auto
  define res where "res = map (\<lambda>j. oes ! (k + j)) [0..<m] @ drop m ues"
  have s1: "array_slice h (Ref ua) = Inr (Ref r, H)"
    using ua by (simp add: H_def r_def)
  have s2: "get H (Ref oa) ''length'' = Inr (N (real (length oes)))"
    by (rule get_length_Arr[OF p1(3,4)])
  have "H ! ua = Arr ues up" "ua < length H"
    using ual by (simp_all add: H_def nth_append)
  then have s3: "get H (Ref ua) ''length'' = Inr (N (real (length ues)))"
    using get_length_Arr by blast
  have s4: "min (real (length oes)) (real (length ues) + real k) = real (k + m)"
    using min_real_window[OF k] m by simp
  have run: "updateSegments h (Ref oa) (Ref ua) (N (real k)) = Inr (Ref (length h), H')"
    unfolding updateSegments_def s1
    using H'(1) by (simp add: s2 s3 s4 r_def del: get.simps)
  have c1: "cell_at H' (length h) = Some (Arr res Map.empty)"
    using H'(2,3) by (simp add: cell_at_def H_def r_def res_def)
  have c2: "length res = length ues"
    using p2(1) by (simp add: res_def)
  have c3: "\<forall>j<length ues.
            if j < m
            then res ! j = oes ! (k + j)
               \<and> (\<exists>po pu pr. obj_props h (oes ! (k + j)) = Some po
                    \<and> obj_props h (ues ! j) = Some pu
                    \<and> obj_props H' (res ! j) = Some pr
                    \<and> (\<forall>f. pr f = (case pu f of Some x \<Rightarrow> Some x | None \<Rightarrow> po f)))
            else res ! j = ues ! j \<and> obj_props H' (ues ! j) = obj_props h (ues ! j)"
  proof (intro allI impI)
    fix j assume jl: "j < length ues"
    show "if j < m
            then res ! j = oes ! (k + j)
               \<and> (\<exists>po pu pr. obj_props h (oes ! (k + j)) = Some po
                    \<and> obj_props h (ues ! j) = Some pu
                    \<and> obj_props H' (res ! j) = Some pr
                    \<and> (\<forall>f. pr f = (case pu f of Some x \<Rightarrow> Some x | None \<Rightarrow> po f)))
            else res ! j = ues ! j \<and> obj_props H' (ues ! j) = obj_props h (ues ! j)"
    proof (cases "j < m")
      case True
      have rj: "res ! j = oes ! (k + j)" using True by (simp add: res_def nth_append)
      from tg True obtain po where po: "obj_props h (oes ! (k + j)) = Some po" by auto
      from sr True obtain pu where pu: "obj_props h (ues ! j) = Some pu" by auto
      have "obj_props H' (res ! j) = Some (po ++ pu)"
        using H'(4) True rj po pu by (simp add: H_def)
      moreover have "\<forall>f. (po ++ pu) f = (case pu f of Some x \<Rightarrow> Some x | None \<Rightarrow> po f)"
        by (simp add: map_add_def)
      ultimately show ?thesis using True rj po pu by simp
    next
      case False
      have rj: "res ! j = ues ! j" using False jl p2(1) by (simp add: res_def nth_append)
      have "obj_props H' (ues ! j) = obj_props h (ues ! j)"
      proof (cases "ues ! j")
        case (Ref b)
        show ?thesis
        proof (cases "b < length h")
          case True
          have "\<forall>i. i < m \<longrightarrow> oes ! (k + i) \<noteq> Ref b"
            using d2 jl False Ref by auto
          then have "H' ! b = H ! b" using H'(5) True by (simp add: H_def r_def)
          then show ?thesis using True Ref H'(2) by (simp add: obj_props_def cell_at_def H_def nth_append)
        next
          case False
          then show ?thesis using Ref H'(2,3)
            by (cases "b = length h") (auto simp: obj_props_def cell_at_def H_def r_def)
        qed
      qed (simp_all add: obj_props_def)
      then show ?thesis using False rj by simp
    qed
  qed
  show ?thesis using run c1 c2 c3 by blast
qed


lemma object_assign_InrD:
  "object_assign h t s = Inr (v, h1) \<Longrightarrow>
     \<exists>a tp sp. t = Ref a \<and> v = Ref a \<and> a < length h \<and> h ! a = Obj tp \<and> h1 = h[a := Obj (tp ++ sp)]"
  by (cases t) (auto simp: bnd_def cell_at_def split: sum.splits option.splits cell.splits if_splits)

lemma put_idx_InrD:
  "put_idx h (Ref r) i x = Inr h2 \<Longrightarrow>
     \<exists>es ps es'. r < length h \<and> h ! r = Arr es ps \<and> h2 = h[r := Arr es' ps]"
  by (auto simp: cell_at_def split: option.splits cell.splits if_splits)

lemma get_idx_Arr_RefD:
  "get_idx h (Ref oa) i = Inr (Ref a) \<Longrightarrow> oa < length h \<Longrightarrow> h ! oa = Arr oes op \<Longrightarrow>
     \<exists>n<length oes. real n = i \<and> oes ! n = Ref a"
  by (auto simp: cell_at_def nat_index_def split: option.splits if_splits)

lemma seg_loop_frame:
  "seg_loop H original result off len i = Inr H' \<Longrightarrow> original = Ref oa \<Longrightarrow> result = Ref r \<Longrightarrow>
   oa < length H \<Longrightarrow> H ! oa = Arr oes op \<Longrightarrow> oa \<noteq> r \<Longrightarrow>
     length H' = length H \<and>
     (\<forall>a. a < length H \<and> a \<noteq> r \<and>
          ((\<forall>n<length oes. i \<le> real n \<and> real n < len \<longrightarrow> oes ! n \<noteq> Ref a) \<or> (\<exists>es ps. H ! a = Arr es ps))
        \<longrightarrow> H' ! a = H ! a)"
proof (induction H original result off len i rule: seg_loop.induct)
  case (1 h original result offset len i)
  show ?case
  proof (cases "i < len")
    case False
    then show ?thesis using "1.prems"(1) by (simp add: seg_loop.simps)
  next
    case True
    from "1.prems"(1) True obtain t s v h1 h2 where
      st: "get_idx h original i = Inr t" "get_idx h result (i - offset) = Inr s"
        "object_assign h t s = Inr (v, h1)" "put_idx h1 result (i - offset) v = Inr h2"
        "seg_loop h2 original result offset len (i + 1) = Inr H'"
      by (subst (asm) seg_loop.simps) (auto split: sum.splits)
    from object_assign_InrD[OF st(3)] obtain a0 tp sp where
      a0: "t = Ref a0" "v = Ref a0" "a0 < length h" "h ! a0 = Obj tp" "h1 = h[a0 := Obj (tp ++ sp)]"
      by blast
    from put_idx_InrD[OF st(4)[unfolded "1.prems"(3)]] obtain es ps es' where
      r: "r < length h1" "h1 ! r = Arr es ps" "h2 = h1[r := Arr es' ps]"
      by blast
    have a0oa: "a0 \<noteq> oa" using a0(4) "1.prems"(5) by auto
    have len2: "length h2 = length h" using r(3) a0(5) by simp
    have h2oa: "h2 ! oa = Arr oes op"
      using "1.prems"(4,5,6) a0oa r(3) a0(5) by simp
    from get_idx_Arr_RefD[OF st(1)[unfolded "1.prems"(2) a0(1)] "1.prems"(4,5)]
    obtain n0 where n0: "n0 < length oes" "real n0 = i" "oes ! n0 = Ref a0" by blast
    have ih: "length H' = length h2 \<and>
     (\<forall>a. a < length h2 \<and> a \<noteq> r \<and>
          ((\<forall>n<length oes. i + 1 \<le> real n \<and> real n < len \<longrightarrow> oes ! n \<noteq> Ref a) \<or> (\<exists>es ps. h2 ! a = Arr es ps))
        \<longrightarrow> H' ! a = h2 ! a)"
      using "1.IH"[OF True st(1) st(2) st(3) refl st(4) st(5) "1.prems"(2,3) _ h2oa "1.prems"(6)]
        "1.prems"(4) len2 by simp
    have "\<forall>a. a < length h \<and> a \<noteq> r \<and>
          ((\<forall>n<length oes. i \<le> real n \<and> real n < len \<longrightarrow> oes ! n \<noteq> Ref a) \<or> (\<exists>es ps. h ! a = Arr es ps))
        \<longrightarrow> H' ! a = h ! a"
    proof (intro allI impI)
      fix a assume a: "a < length h \<and> a \<noteq> r \<and>
          ((\<forall>n<length oes. i \<le> real n \<and> real n < len \<longrightarrow> oes ! n \<noteq> Ref a) \<or> (\<exists>es ps. h ! a = Arr es ps))"
      have aa0: "a \<noteq> a0"
      proof
        assume "a = a0"
        with a a0(4) have "\<forall>n<length oes. i \<le> real n \<and> real n < len \<longrightarrow> oes ! n \<noteq> Ref a0" by auto
        with n0 True show False by auto
      qed
      then have same: "h2 ! a = h ! a" using a r(3) a0(5) by simp
      have "(\<forall>n<length oes. i + 1 \<le> real n \<and> real n < len \<longrightarrow> oes ! n \<noteq> Ref a) \<or> (\<exists>es ps. h2 ! a = Arr es ps)"
        using a same by auto
      then have "H' ! a = h2 ! a" using ih a len2 by simp
      then show "H' ! a = h ! a" using same by simp
    qed
    then show ?thesis using ih len2 by simp
  qed
qed


lemma slice_Arr:
  "cell_at h ua = Some (Arr ues up) \<Longrightarrow> array_slice h (Ref ua) = Inr (Ref (length h), h @ [Arr ues Map.empty])"
  by simp

lemma updateSegments_unfold:
  assumes oa: "cell_at h oa = Some (Arr oes op)"
    and ua: "cell_at h ua = Some (Arr ues up)"
    and off: "as_counter (js_or offset (N 0)) = Inr off"
  shows "updateSegments h (Ref oa) (Ref ua) offset =
     bnd (seg_loop (h @ [Arr ues Map.empty]) (Ref oa) (Ref (length h)) off
            (min (real (length oes)) (real (length ues) + off)) off)
         (\<lambda>h2. Inr (Ref (length h), h2))"
proof -
  have oal: "oa < length h" "h ! oa = Arr oes op"
    using oa by (auto simp: cell_at_def split: if_splits)
  have ual: "ua < length h" "h ! ua = Arr ues up"
    using ua by (auto simp: cell_at_def split: if_splits)
  have s2: "get (h @ [Arr ues Map.empty]) (Ref oa) ''length'' = Inr (N (real (length oes)))"
    using oal by (intro get_length_Arr) (simp_all add: nth_append)
  have s3: "get (h @ [Arr ues Map.empty]) (Ref ua) ''length'' = Inr (N (real (length ues)))"
    using ual by (intro get_length_Arr) (simp_all add: nth_append)
  show ?thesis
    unfolding updateSegments_def slice_Arr[OF ua] off
    by (simp add: s2 s3 del: get.simps)
qed


text \<open>
  Claim C4, as amended. The window is not clamped at zero. For an offset at or past the
  end of the original list the loop does not run, and the result is a copy of the
  update list with the store otherwise untouched. For a negative offset the first
  iteration reads \<open>original[offset]\<close>, which is \<open>undefined\<close>, and
  \<open>Object.assign(undefined, ...)\<close> throws: the call returns only when the update is empty.
\<close>

theorem updateSegments_window:
  assumes oa: "cell_at h oa = Some (Arr oes op)"
    and ua: "cell_at h ua = Some (Arr ues up)"
  shows "(real (length oes) \<le> r \<longrightarrow>
            updateSegments h (Ref oa) (Ref ua) (N r) = Inr (Ref (length h), h @ [Arr ues Map.empty]))
       \<and> (r < 0 \<and> ues \<noteq> [] \<longrightarrow> updateSegments h (Ref oa) (Ref ua) (N r) = Inl TypeError)
       \<and> (r < 0 \<and> ues = [] \<longrightarrow>
            updateSegments h (Ref oa) (Ref ua) (N r) = Inr (Ref (length h), h @ [Arr ues Map.empty]))"
proof -
  have off: "as_counter (js_or (N r) (N 0)) = Inr r"
    by (simp add: as_counter_def js_or_def)
  note unf = updateSegments_unfold[OF oa ua off]
  have oal: "oa < length h" "h ! oa = Arr oes op"
    using oa by (auto simp: cell_at_def split: if_splits)
  have a: "real (length oes) \<le> r \<Longrightarrow>
            updateSegments h (Ref oa) (Ref ua) (N r) = Inr (Ref (length h), h @ [Arr ues Map.empty])"
    unfolding unf by (simp add: seg_loop_done)
  have b: "updateSegments h (Ref oa) (Ref ua) (N r) = Inl TypeError" if "r < 0" "ues \<noteq> []"
  proof -
    have "r < min (real (length oes)) (real (length ues) + r)"
      using that by (cases ues) (auto simp: min_def)
    moreover have "get_idx (h @ [Arr ues Map.empty]) (Ref oa) r = Inr Undef"
      using oal that by (simp add: cell_at_def nth_append nat_index_def)
    moreover have "get_idx (h @ [Arr ues Map.empty]) (Ref (length h)) (r - r) = Inr (ues ! 0)"
      using that by (simp add: cell_at_def nat_index_def)
    ultimately show ?thesis
      unfolding unf by (subst seg_loop.simps) simp
  qed
  have c: "r < 0 \<Longrightarrow> ues = [] \<Longrightarrow>
            updateSegments h (Ref oa) (Ref ua) (N r) = Inr (Ref (length h), h @ [Arr ues Map.empty])"
    unfolding unf by (simp add: seg_loop_done)
  show ?thesis using a b c by blast
qed

lemmas seg_eval = seg_store_def updateSegments_def cell_at_def js_or_def as_counter_def
  math_min_def arith_def seg_loop.simps nat_index_def lookup_def field_after_def obj_props_def

text \<open>
  Claim C4 fails as stated: with offset \<open>-1\<close>, two old and two new segments, the call
  throws instead of returning the update's segments.
\<close>

theorem updateSegments_negative_offset_throws:
  "updateSegments seg_store (Ref 0) (Ref 1) (N (- 1)) = Inl TypeError"
  by (simp add: seg_eval)


text \<open>
  The two cases of \<open>updateSegments_window\<close> on the example store: offset 2 (the length of
  the original) and offset \<open>-3\<close>.
\<close>

theorem updateSegments_window_witness:
  "updateSegments seg_store (Ref 0) (Ref 1) (N 2) = Inr (Ref 6, seg_store @ [Arr [Ref 4, Ref 5] Map.empty])
   \<and> updateSegments seg_store (Ref 0) (Ref 1) (N (- 3)) = Inl TypeError"
  using updateSegments_window[of seg_store 0 "[Ref 2, Ref 3]" Map.empty 1 "[Ref 4, Ref 5]" Map.empty 2]
    updateSegments_window[of seg_store 0 "[Ref 2, Ref 3]" Map.empty 1 "[Ref 4, Ref 5]" Map.empty "- 3"]
  by (simp add: seg_store_def cell_at_def)


text \<open>
  \<open>updateSegments_overlay\<close> on the example store with offset 1: the merged segment is the
  old object at address 3, with the update's duration and its own start time.
\<close>

theorem updateSegments_overlay_witness:
  "\<exists>res h' pr. updateSegments seg_store (Ref 0) (Ref 1) (N 1) = Inr (Ref 6, h')
     \<and> cell_at h' 6 = Some (Arr res Map.empty) \<and> length res = 2
     \<and> res ! 0 = Ref 3 \<and> res ! 1 = Ref 5
     \<and> obj_props h' (Ref 3) = Some pr
     \<and> pr ''duration'' = Some (N 5) \<and> pr ''start'' = Some (N 4) \<and> pr ''uri'' = Some (S ''s1.ts'')"
proof -
  have oa: "cell_at seg_store 0 = Some (Arr [Ref 2, Ref 3] Map.empty)"
    and ua: "cell_at seg_store 1 = Some (Arr [Ref 4, Ref 5] Map.empty)"
    by (simp_all add: seg_store_def cell_at_def)
  have "\<exists>res h'. updateSegments seg_store (Ref 0) (Ref 1) (N (real 1)) = Inr (Ref (length seg_store), h')
      \<and> cell_at h' (length seg_store) = Some (Arr res Map.empty)
      \<and> length res = length [Ref 4, Ref 5]
      \<and> (\<forall>j<length [Ref 4, Ref 5].
            if j < 1
            then res ! j = [Ref 2, Ref 3] ! (1 + j)
               \<and> (\<exists>po pu pr. obj_props seg_store ([Ref 2, Ref 3] ! (1 + j)) = Some po
                    \<and> obj_props seg_store ([Ref 4, Ref 5] ! j) = Some pu
                    \<and> obj_props h' (res ! j) = Some pr
                    \<and> (\<forall>f. pr f = (case pu f of Some x \<Rightarrow> Some x | None \<Rightarrow> po f)))
            else res ! j = [Ref 4, Ref 5] ! j
               \<and> obj_props h' ([Ref 4, Ref 5] ! j) = obj_props seg_store ([Ref 4, Ref 5] ! j))"
    by (rule updateSegments_overlay[OF oa ua])
       (simp_all add: seg_store_def obj_props_def cell_at_def less_Suc_eq numeral_2_eq_2)
  then obtain res h' where r:
    "updateSegments seg_store (Ref 0) (Ref 1) (N (real 1)) = Inr (Ref (length seg_store), h')"
    "cell_at h' (length seg_store) = Some (Arr res Map.empty)"
    "length res = length [Ref 4, Ref 5 :: val]"
    and al: "\<forall>j<length [Ref 4, Ref 5 :: val].
            if j < 1
            then res ! j = [Ref 2, Ref 3] ! (1 + j)
               \<and> (\<exists>po pu pr. obj_props seg_store ([Ref 2, Ref 3] ! (1 + j)) = Some po
                    \<and> obj_props seg_store ([Ref 4, Ref 5] ! j) = Some pu
                    \<and> obj_props h' (res ! j) = Some pr
                    \<and> (\<forall>f. pr f = (case pu f of Some x \<Rightarrow> Some x | None \<Rightarrow> po f)))
            else res ! j = [Ref 4, Ref 5] ! j
               \<and> obj_props h' ([Ref 4, Ref 5] ! j) = obj_props seg_store ([Ref 4, Ref 5] ! j)"
    by blast
  from al[rule_format, of 0] obtain po pu pr where r0: "res ! 0 = Ref 3"
    "obj_props seg_store (Ref 3) = Some po" "obj_props seg_store (Ref 4) = Some pu"
    "obj_props h' (Ref 3) = Some pr"
    "\<forall>f. pr f = (case pu f of Some x \<Rightarrow> Some x | None \<Rightarrow> po f)"
    by auto
  from al[rule_format, of 1] have r1: "res ! 1 = Ref 5" by simp
  have l: "length seg_store = 6" by (simp add: seg_store_def)
  have "pr ''duration'' = Some (N 5)" "pr ''start'' = Some (N 4)" "pr ''uri'' = Some (S ''s1.ts'')"
    using r0(2,3) by (auto simp add: r0(5) seg_store_def obj_props_def cell_at_def)
  then show ?thesis using r r0(1,4) r1 l by auto
qed

section \<open>Properties of the rendition selector\<close>

lemma filter_count_rep:
  assumes "list_all2 R es rs" and "\<And>e r. R e r \<Longrightarrow> f e = Inr (P r)"
  shows "filter_count f es = Inr (length (filter P rs))"
  using assms(1)
proof (induction rule: list_all2_induct)
  case Nil
  then show ?case by simp
next
  case (Cons e es r rs)
  then show ?case using assms(2)[of e r] by simp
qed

lemma rendition_atD:
  "rendition_at h v r \<Longrightarrow>
     \<exists>a ps b qs. v = Ref a \<and> cell_at h a = Some (Obj ps) \<and> ps ''excludeUntil'' = map_option N (fst r)
       \<and> ps ''attributes'' = Some (Ref b) \<and> cell_at h b = Some (Obj qs) \<and> qs ''BANDWIDTH'' = Some (N (snd r))"
proof -
  assume r: "rendition_at h v r"
  then obtain a where v: "v = Ref a"
    by (cases v) (simp_all add: rendition_at_def)
  from r v obtain ps where ps: "cell_at h a = Some (Obj ps)"
    by (cases "cell_at h a") (auto simp: rendition_at_def split: cell.splits)
  from r v ps have ex: "ps ''excludeUntil'' = map_option N (fst r)"
    by (simp add: rendition_at_def)
  from r v ps obtain b where b: "ps ''attributes'' = Some (Ref b)"
    by (cases "ps ''attributes''") (auto simp: rendition_at_def split: val.splits)
  from r v ps b obtain qs where qs: "cell_at h b = Some (Obj qs)"
    by (cases "cell_at h b") (auto simp: rendition_at_def split: cell.splits)
  from r v ps b qs have "qs ''BANDWIDTH'' = Some (N (snd r))"
    by (simp add: rendition_at_def)
  with v ps ex b qs show ?thesis by blast
qed

lemma compare_N [simp]: "compare f (N x) (N y) = Inr (f x y)"
  by (simp add: compare_def)

lemma enabled_rep:
  assumes "rendition_at h e r" "0 \<le> now"
  shows "bnd (get h e ''excludeUntil'') (\<lambda>x. if \<not> truthy x then Inr True else js_le x (N now)) = Inr (eligible now r)"
proof -
  from rendition_atD[OF assms(1)] obtain a ps where
    a: "e = Ref a" "cell_at h a = Some (Obj ps)" "ps ''excludeUntil'' = map_option N (fst r)"
    by blast
  show ?thesis
    using a assms(2) by (cases "fst r") (auto simp: lookup_def eligible_def js_le_def)
qed

lemma lower_or_equal_rep:
  assumes "rendition_at h e r"
  shows "lower_or_equal now h (N b) e = Inr (eligible now r \<and> snd r \<le> b)"
proof -
  from rendition_atD[OF assms(1)] obtain a ps c qs where
    a: "e = Ref a" "cell_at h a = Some (Obj ps)" "ps ''excludeUntil'' = map_option N (fst r)"
      "ps ''attributes'' = Some (Ref c)" "cell_at h c = Some (Obj qs)" "qs ''BANDWIDTH'' = Some (N (snd r))"
    by blast
  show ?thesis
    using a by (cases "fst r") (auto simp: lower_or_equal_def lookup_def eligible_def js_le_def)
qed

text \<open>
  Claim C9, as amended. Let the master's playlists be renditions \<open>rs\<close>, each with an
  optional \<open>excludeUntil\<close> and a bandwidth. \<open>enabledPlaylists\<close> counts the eligible ones.
  \<open>isLowestEnabledRendition\<close> is false when there is no active playlist or the active
  playlist has no \<open>attributes\<close>; otherwise it is true exactly when at most one eligible
  rendition has a bandwidth less than or equal to the active one's. The active rendition
  counts itself, and so does every eligible rendition that ties with it.
\<close>

theorem isLowestEnabledRendition_count:
  assumes pls: "get h (ld_master l) ''playlists'' = Inr (Ref pa)"
    and arr: "cell_at h pa = Some (Arr es pp)"
    and reps: "list_all2 (rendition_at h) es rs"
    and now: "0 \<le> now"
  shows "enabledPlaylists now h l = Inr (length (filter (eligible now) rs))
       \<and> (\<not> truthy (ld_media l) \<longrightarrow> isLowestEnabledRendition now h l = Inr False)
       \<and> (\<forall>a ps. ld_media l = Ref a \<and> cell_at h a = Some (Obj ps) \<and> \<not> truthy (lookup ps ''attributes'')
            \<longrightarrow> isLowestEnabledRendition now h l = Inr False)
       \<and> (\<forall>ex b. rendition_at h (ld_media l) (ex, b) \<longrightarrow>
            isLowestEnabledRendition now h l =
              Inr (length (filter (\<lambda>r. eligible now r \<and> snd r \<le> b) rs) \<le> 1))"
proof -
  have c1: "enabledPlaylists now h l = Inr (length (filter (eligible now) rs))"
  proof -
    have "filter_count (\<lambda>element. bnd (get h element ''excludeUntil'')
            (\<lambda>x. if \<not> truthy x then Inr True else js_le x (N now))) es
        = Inr (length (filter (eligible now) rs))"
      by (rule filter_count_rep[OF reps]) (rule enabled_rep[OF _ now])
    then show ?thesis using pls arr by (simp add: enabledPlaylists_def)
  qed
  have c2: "\<not> truthy (ld_media l) \<Longrightarrow> isLowestEnabledRendition now h l = Inr False"
    by (simp add: isLowestEnabledRendition_def)
  have c3: "isLowestEnabledRendition now h l = Inr False"
    if "ld_media l = Ref a" "cell_at h a = Some (Obj ps)" "\<not> truthy (lookup ps ''attributes'')" for a ps
    using that by (simp add: isLowestEnabledRendition_def)
  have c4: "isLowestEnabledRendition now h l = Inr (length (filter (\<lambda>r. eligible now r \<and> snd r \<le> b) rs) \<le> 1)"
    if "rendition_at h (ld_media l) (ex, b)" for ex b
  proof -
    from rendition_atD[OF that] obtain a ps c qs where
      a: "ld_media l = Ref a" "cell_at h a = Some (Obj ps)"
        "ps ''attributes'' = Some (Ref c)" "cell_at h c = Some (Obj qs)" "qs ''BANDWIDTH'' = Some (N b)"
      by auto
    have cb: "js_or (N b) (N 0) = N b" by (simp add: js_or_def)
    have "filter_count (lower_or_equal now h (N b)) es
        = Inr (length (filter (\<lambda>r. eligible now r \<and> snd r \<le> b) rs))"
      by (rule filter_count_rep[OF reps lower_or_equal_rep])
    then show ?thesis
      using a pls arr by (simp add: isLowestEnabledRendition_def lookup_def cb not_less)
  qed
  show ?thesis using c1 c2 c3 c4 by blast
qed

lemmas rend_eval = rendition_store_def idle_loader_def enabledPlaylists_def isLowestEnabledRendition_def
  lower_or_equal_def cell_at_def lookup_def js_or_def js_le_def compare_def

text \<open>
  Claim C9 fails as stated on its own example: bandwidths 500k (excluded until 2000, now
  is 1000), 800k, 800k and 1200k, with the first 800k entry active. Three renditions are
  eligible, and the answer is false, since both 800k entries count.
\<close>

theorem isLowestEnabledRendition_tie:
  "enabledPlaylists 1000 rendition_store (idle_loader\<lparr>ld_media := Ref 4\<rparr>) = Inr 3
   \<and> isLowestEnabledRendition 1000 rendition_store (idle_loader\<lparr>ld_media := Ref 4\<rparr>) = Inr False"
  by (simp add: rend_eval)

text \<open>
  \<open>isLowestEnabledRendition_count\<close> on the example store, with the 1200k rendition active
  and with no active rendition.
\<close>

theorem isLowestEnabledRendition_count_witness:
  "enabledPlaylists 1000 rendition_store (idle_loader\<lparr>ld_media := Ref 8\<rparr>) = Inr 3
   \<and> isLowestEnabledRendition 1000 rendition_store (idle_loader\<lparr>ld_media := Ref 8\<rparr>) = Inr False
   \<and> isLowestEnabledRendition 1000 rendition_store idle_loader = Inr False"
proof -
  have r: "list_all2 (rendition_at rendition_store) [Ref 2, Ref 4, Ref 6, Ref 8]
      [(Some 2000, 500000), (None, 800000), (None, 800000), (None, 1200000)]"
    by (simp add: rendition_at_def rendition_store_def cell_at_def)
  have a: "rendition_at rendition_store (Ref 8) (None, 1200000)"
    by (simp add: rendition_at_def rendition_store_def cell_at_def)
  show ?thesis
    using isLowestEnabledRendition_count[of rendition_store "idle_loader\<lparr>ld_media := Ref 8\<rparr>" 1
        "[Ref 2, Ref 4, Ref 6, Ref 8]" Map.empty _ 1000, OF _ _ r] a
      isLowestEnabledRendition_count[of rendition_store idle_loader 1
        "[Ref 2, Ref 4, Ref 6, Ref 8]" Map.empty _ 1000, OF _ _ r]
    by (simp add: rendition_store_def idle_loader_def cell_at_def lookup_def eligible_def)
qed

section \<open>Properties of error handling and switching\<close>

lemma get_Obj: "cell_at h a = Some (Obj ps) \<Longrightarrow> get h (Ref a) k = Inr (lookup ps k)"
  by simp

lemma get_Arr_named:
  "cell_at h a = Some (Arr es ps) \<Longrightarrow> \<not> array_key k \<Longrightarrow> get h (Ref a) k = Inr (lookup ps k)"
  by (auto simp: array_key_def)


lemmas switch_eval = switch_store_def switching_loader_def idle_loader_def cell_at_def lookup_def
  js_or_def js_ge_def compare_def onPlaylistRequestError_def get_key_def to_key_def array_key_def
  media_def abort_request_def emit_def strict_eq_def Let_def




section \<open>Properties of the live window tracker\<close>

lemma dropped_Suc:
  "dropped infos (Suc n) = (if n < length infos then infos ! n else None) # dropped infos n"
  by (simp add: dropped_def)

lemma seg_at_SomeD:
  "seg_at h v (Some (en, st, d)) \<Longrightarrow>
     \<exists>a ps. v = Ref a \<and> cell_at h a = Some (Obj ps) \<and> lookup ps ''end'' = opt_num en
        \<and> lookup ps ''start'' = opt_num st \<and> lookup ps ''duration'' = N d"
  by (auto simp: seg_at_def obj_props_def split: option.splits val.splits cell.splits)

lemma expired_walk_dropped:
  assumes old: "cell_at h od = Some (Obj odp)"
    and segs: "odp ''segments'' = Some (Ref osa)" "cell_at h osa = Some (Arr oes osp)"
    and reps: "list_all2 (seg_at h) oes infos"
    and td: "js_or (lookup odp ''targetDuration'') (N 10) = N td"
  shows "expired_walk h (Ref od) (real n - 1) (N e) = Inr (N (tracker_walk td (dropped infos n) e))"
proof (induction n arbitrary: e)
  case 0
  show ?case by (subst expired_walk.simps) (simp add: dropped_def)
next
  case (Suc n)
  have g1: "get h (Ref od) ''segments'' = Inr (Ref osa)"
    using old segs(1) by (simp add: lookup_def)
  have g2: "get_idx h (Ref osa) (real n) = Inr (if n < length oes then oes ! n else Undef)"
    using segs(2) by simp
  have g3: "get h (Ref od) ''targetDuration'' = Inr (lookup odp ''targetDuration'')"
    using old by simp
  have len: "length oes = length infos" using reps by (rule list_all2_lengthD)
  note unf = expired_walk.simps[of h "Ref od" "real (Suc n) - 1" "N e"]
  show ?case
  proof (cases "n < length oes")
    case False
    then show ?thesis
      using len Suc.IH[of "e + td"]
      by (subst unf) (simp add: dropped_Suc g1 g2 g3 td del: get.simps get_idx.simps)
  next
    case True
    then have r: "seg_at h (oes ! n) (infos ! n)"
      using reps by (simp add: list_all2_nthD)
    show ?thesis
    proof (cases "infos ! n")
      case None
      then have "oes ! n = Undef" using r by (simp add: seg_at_def)
      then show ?thesis
        using len True None Suc.IH[of "e + td"]
        by (subst unf) (simp add: dropped_Suc g1 g2 g3 td del: get.simps get_idx.simps)
    next
      case (Some i)
      obtain en st d where i: "i = (en, st, d)" by (cases i)
      from seg_at_SomeD[OF r[unfolded Some i]] obtain a ps where
        a: "oes ! n = Ref a" "cell_at h a = Some (Obj ps)" "lookup ps ''end'' = opt_num en"
          "lookup ps ''start'' = opt_num st" "lookup ps ''duration'' = N d"
        by blast
      have ga: "\<And>k. get h (Ref a) k = Inr (lookup ps k)" using a(2) by simp
      show ?thesis
        using len True Some i a(1,3,4,5) Suc.IH[of "e + d"]
        by (subst unf, cases en; cases st)
           (simp_all add: dropped_Suc g1 g2 g3 td ga opt_num_def del: get.simps get_idx.simps)
    qed
  qed
qed

lemma expired_walk_int:
  assumes old: "cell_at h od = Some (Obj odp)"
    and segs: "odp ''segments'' = Some (Ref osa)" "cell_at h osa = Some (Arr oes osp)"
    and reps: "list_all2 (seg_at h) oes infos"
    and td: "js_or (lookup odp ''targetDuration'') (N 10) = N td"
  shows "expired_walk h (Ref od) (of_int z - 1) (N e) = Inr (N (tracker_walk td (dropped infos (nat z)) e))"
proof (cases "0 < z")
  case True
  then have "0 \<le> z" by simp
  then show ?thesis
    using expired_walk_dropped[OF old segs reps td, of "nat z" e] by (simp only: of_nat_nat)
next
  case False
  then have "\<not> (0::real) \<le> of_int z - 1" by simp
  then show ?thesis
    using False by (subst expired_walk.simps) (simp add: dropped_def)
qed

lemma first_precise_rep:
  assumes new: "cell_at h n = Some (Obj np)"
    and news: "np ''segments'' = Some (Ref nsa)" "cell_at h nsa = Some (Arr nes nsp)"
      "case nes of [] \<Rightarrow> first = None | v # _ \<Rightarrow> first \<noteq> None \<and> seg_at h v first"
  shows "first_precise h (Ref n) =
     Inr (case first of
            Some (en, Some st, d) \<Rightarrow> Some (N st)
          | Some (Some en, None, d) \<Rightarrow> Some (N (en - d))
          | _ \<Rightarrow> None)"
proof -
  have g1: "get h (Ref n) ''segments'' = Inr (Ref nsa)"
    using new news(1) by (simp add: lookup_def)
  have g2: "get h (Ref nsa) ''length'' = Inr (N (real (length nes)))"
    using news(2) by simp
  show ?thesis
  proof (cases nes)
    case Nil
    then show ?thesis
      using news(3) by (simp add: first_precise_def g1 g2 del: get.simps)
  next
    case (Cons v vs)
    with news(3) obtain en st d where f: "first = Some (en, st, d)" "seg_at h v (Some (en, st, d))"
      by (cases first) auto
    from seg_at_SomeD[OF f(2)] obtain a ps where
      a: "v = Ref a" "cell_at h a = Some (Obj ps)" "lookup ps ''end'' = opt_num en"
        "lookup ps ''start'' = opt_num st" "lookup ps ''duration'' = N d"
      by blast
    have g3: "get_idx h (Ref nsa) 0 = Inr (Ref a)"
      using news(2) Cons a(1) by (simp add: nat_index_def)
    have ga: "\<And>k. get h (Ref a) k = Inr (lookup ps k)" using a(2) by simp
    show ?thesis
      using Cons f(1) a(3,4,5)
      by (cases en; cases st)
         (simp_all add: first_precise_def g1 g2 g3 ga opt_num_def js_sub_def del: get.simps get_idx.simps)
  qed
qed



section \<open>The merge and the refresh on an example\<close>

lemmas master_eval = master_store_def updateSegments_def cell_at_def js_or_def as_counter_def
  math_min_def arith_def seg_loop.simps nat_index_def lookup_def field_after_def
  updateMaster_def merge_playlist_def unchanged_def resolve_sub_def to_key_def get_key_def put_key_def
  loop_count_def strict_eq_def js_sub_def segments_after_def result_elems_def join_url_def array_key_def
  numeral_eq_Suc

text \<open>
  Claim C2 is right about what the merge should do, and the code does not do it. The old
  playlist at address 2 has sequence 10 and the segments at 4 and 5, the second with its
  start time established; the update at address 6 has sequence 11 and the segments at 8
  and 9. Merging the segment lists with offset 1 gives the old object 5 and the new object
  9. \<open>updateMaster\<close> leaves the playlist with the update's own objects 8 and 9, and the
  start time is lost: by the time \<open>updateSegments\<close> is called, \<open>Object.assign(playlist, media)\<close>
  has replaced \<open>playlist.segments\<close> and \<open>playlist.mediaSequence\<close> by the update's.
\<close>

theorem updateMaster_drops_old_fields:
  "get master_store (Ref 5) ''start'' = Inr (N 44)
   \<and> result_elems (updateSegments master_store (Ref 3) (Ref 7) (N 1)) = Inr [Ref 5, Ref 9]
   \<and> segments_after (updateMaster join_url master_store (Ref 0) (Ref 6)) (Ref 2) = Inr [Ref 8, Ref 9]
   \<and> field_after (updateMaster join_url master_store (Ref 0) (Ref 6)) (Ref 8) ''start'' = Inr Undef
   \<and> field_after (updateMaster join_url master_store (Ref 0) (Ref 6)) (Ref 8) ''resolvedUri''
       = Inr (S ''http://h/s11.ts'')"
proof -
  have a: "get master_store (Ref 5) ''start'' = Inr (N 44)"
    by (simp add: master_store_def cell_at_def lookup_def)
  have b: "result_elems (updateSegments master_store (Ref 3) (Ref 7) (N 1)) = Inr [Ref 5, Ref 9]"
    by (simp add: master_eval)
  have c: "segments_after (updateMaster join_url master_store (Ref 0) (Ref 6)) (Ref 2) = Inr [Ref 8, Ref 9]"
    by (simp add: master_eval)
  have d: "field_after (updateMaster join_url master_store (Ref 0) (Ref 6)) (Ref 8) ''start'' = Inr Undef"
    by (simp add: master_eval)
  have e: "field_after (updateMaster join_url master_store (Ref 0) (Ref 6)) (Ref 8) ''resolvedUri''
       = Inr (S ''http://h/s11.ts'')"
    by (simp add: master_eval)
  show ?thesis using a b c d e by simp
qed

text \<open>
  Claim C6 is right about the refresh policy, and the code does not reach it. Line 161
  assigns to \<open>parser.mainfest.uri\<close>; the parser's property is \<open>manifest\<close>, as the next
  lines of the same function spell it, so \<open>parser.mainfest\<close> is \<open>undefined\<close> and the
  assignment throws before the merge, the delay and the timer.
\<close>

theorem haveMetadata_mainfest:
  assumes "get h xhr ''bandwidth'' = Inr bw" and "get h parser ''mainfest'' = Inr Undef"
  shows "haveMetadata rs h l xhr url parser = Inl TypeError"
  using assms by (simp add: haveMetadata_def Let_def del: get.simps)

text \<open>
  \<open>haveMetadata_mainfest\<close> on the example store: a refresh response for \<open>a.m3u8\<close> with
  target duration 6.
\<close>

theorem haveMetadata_mainfest_witness:
  "haveMetadata join_url master_store (idle_loader\<lparr>ld_media := Ref 2\<rparr>) (Ref 10) (S ''a.m3u8'') (Ref 11)
     = Inl TypeError"
  by (rule haveMetadata_mainfest) (simp_all add: master_store_def cell_at_def lookup_def)



section \<open>Properties of the master merge\<close>

lemma map_add_self [simp]: "(p :: props) ++ p = p"
  by (rule ext) (simp add: map_add_def split: option.splits)

lemma seg_loop_self:
  assumes "sa < length H" "H ! sa = Arr ses sp" "r < length H" "H ! r = Arr ses rp"
    and "list_all (is_obj H) ses" "t \<le> length ses"
  shows "seg_loop H (Ref sa) (Ref r) 0 (real (length ses)) (real t) = Inr H"
  using assms(6)
proof (induction "length ses - t" arbitrary: t)
  case 0
  then show ?case by (simp add: seg_loop_done)
next
  case (Suc d)
  then have t: "t < length ses" by simp
  then have "is_obj H (ses ! t)" using assms(5) by (simp add: list_all_length)
  then obtain a q where a: "ses ! t = Ref a" "a < length H" "H ! a = Obj q"
    using obj_props_SomeD[of H "ses ! t"] by (auto simp: is_obj_def)
  have g1: "get_idx H (Ref sa) (real t) = Inr (Ref a)"
    using get_idx_Arr[OF assms(1,2), of t] t a by simp
  have g2: "get_idx H (Ref r) (real t - 0) = Inr (Ref a)"
    using get_idx_Arr[OF assms(3,4), of t] t a by simp
  have e3: "H[a := Obj q] = H"
    using a(3) list_update_id[of H a] by simp
  have g3: "object_assign H (Ref a) (Ref a) = Inr (Ref a, H)"
    using object_assign_Obj[OF a(2,3) a(2,3)] by (simp only: map_add_self e3)
  have e1: "ses[t := Ref a] = ses"
    using a(1) list_update_id[of ses t] by simp
  have e2: "H[r := Arr ses rp] = H"
    using assms(4) list_update_id[of H r] by simp
  have g4: "put_idx H (Ref r) (real t - 0) (Ref a) = Inr H"
    using put_idx_Arr[OF assms(3,4), of t "Ref a"] t by (simp only: e1 e2 diff_zero)
  have "seg_loop H (Ref sa) (Ref r) 0 (real (length ses)) (real t)
      = seg_loop H (Ref sa) (Ref r) 0 (real (length ses)) (real t + 1)"
    using seg_loop_step[OF _ g1 g2 g3 g4, of "real (length ses)"] t by simp
  also have "\<dots> = Inr H"
    using Suc.hyps(1)[of "Suc t"] Suc.hyps(2) t by (simp add: add.commute)
  finally show ?case .
qed

lemma is_obj_append [simp]: "is_obj (h @ [Arr es ps]) v = is_obj h v"
  by (simp add: is_obj_def)

lemma updateSegments_self:
  assumes "cell_at h sa = Some (Arr ses sp)" "list_all (is_obj h) ses"
    and "as_counter (js_or offset (N 0)) = Inr 0"
  shows "updateSegments h (Ref sa) (Ref sa) offset = Inr (Ref (length h), h @ [Arr ses Map.empty])"
proof -
  define H where "H = h @ [Arr ses Map.empty]"
  have sal: "sa < length h" "h ! sa = Arr ses sp"
    using assms(1) by (auto simp: cell_at_def split: if_splits)
  have "seg_loop H (Ref sa) (Ref (length h)) 0 (real (length ses)) (real 0) = Inr H"
    using sal assms(2)
    by (intro seg_loop_self[where sp = sp and rp = Map.empty])
       (simp_all add: H_def nth_append list_all_length)
  then show ?thesis
    unfolding updateSegments_unfold[OF assms(1) assms(1) assms(3)] H_def by simp
qed

lemma ru_refl [simp]: "ru_only h h"
  by (simp add: ru_only_def)

lemma ru_cell:
  assumes "ru_only h h'" "a < length h"
  shows "(\<exists>es ps. h ! a = Arr es ps \<and> h' ! a = Arr es ps)
       \<or> (\<exists>q q'. h ! a = Obj q \<and> h' ! a = Obj q' \<and> (\<forall>k. k \<noteq> ''resolvedUri'' \<longrightarrow> q' k = q k))"
proof -
  from assms have "h' ! a = h ! a \<or>
         (\<exists>q q'. h ! a = Obj q \<and> h' ! a = Obj q' \<and> (\<forall>k. k \<noteq> ''resolvedUri'' \<longrightarrow> q' k = q k))"
    by (simp add: ru_only_def)
  then show ?thesis by (cases "h ! a") auto
qed

lemma ru_length: "ru_only h h' \<Longrightarrow> length h' = length h"
  by (simp add: ru_only_def)

lemma ru_trans:
  assumes "ru_only h h1" "ru_only h1 h2"
  shows "ru_only h h2"
  unfolding ru_only_def
proof (intro conjI allI impI)
  show "length h2 = length h" using assms by (simp add: ru_length)
next
  fix a assume a: "a < length h"
  then have a1: "a < length h1" using assms(1) by (simp add: ru_length)
  from ru_cell[OF assms(1) a] show "h2 ! a = h ! a \<or>
         (\<exists>q q'. h ! a = Obj q \<and> h2 ! a = Obj q' \<and> (\<forall>k. k \<noteq> ''resolvedUri'' \<longrightarrow> q' k = q k))"
  proof
    assume "\<exists>es ps. h ! a = Arr es ps \<and> h1 ! a = Arr es ps"
    then obtain es ps where "h ! a = Arr es ps" "h1 ! a = Arr es ps" by blast
    with ru_cell[OF assms(2) a1] show ?thesis by auto
  next
    assume "\<exists>q q'. h ! a = Obj q \<and> h1 ! a = Obj q' \<and> (\<forall>k. k \<noteq> ''resolvedUri'' \<longrightarrow> q' k = q k)"
    then obtain q q1 where q: "h ! a = Obj q" "h1 ! a = Obj q1" "\<forall>k. k \<noteq> ''resolvedUri'' \<longrightarrow> q1 k = q k"
      by blast
    with ru_cell[OF assms(2) a1] obtain q2 where
      "h2 ! a = Obj q2" "\<forall>k. k \<noteq> ''resolvedUri'' \<longrightarrow> q2 k = q1 k" by auto
    with q show ?thesis by simp
  qed
qed

lemma ru_put:
  "cell_at h a = Some (Obj q) \<Longrightarrow> ru_only h (h[a := Obj (q(''resolvedUri'' \<mapsto> v))])"
  by (auto simp: ru_only_def cell_at_def nth_list_update split: if_splits)

lemma ru_get:
  assumes "ru_only h h'" "k \<noteq> ''resolvedUri''"
  shows "get h' v k = get h v k"
proof (cases v)
  case (Ref a)
  show ?thesis
  proof (cases "a < length h")
    case True
    from ru_cell[OF assms(1) True] show ?thesis
      using Ref True assms(2) ru_length[OF assms(1)] by (auto simp: cell_at_def lookup_def)
  next
    case False
    then show ?thesis using Ref ru_length[OF assms(1)] by (simp add: cell_at_def)
  qed
qed simp_all

lemma ru_get_idx:
  assumes "ru_only h h'"
  shows "get_idx h' v i = get_idx h v i"
proof (cases v)
  case (Ref a)
  show ?thesis
  proof (cases "a < length h")
    case True
    from ru_cell[OF assms(1) True] show ?thesis
      using Ref True ru_length[OF assms(1)] by (auto simp: cell_at_def)
  next
    case False
    then show ?thesis using Ref ru_length[OF assms(1)] by (simp add: cell_at_def)
  qed
qed simp_all

lemma ru_arr_elems:
  assumes "ru_only h h'"
  shows "arr_elems h' v = arr_elems h v"
proof (cases v)
  case (Ref a)
  show ?thesis
  proof (cases "a < length h")
    case True
    from ru_cell[OF assms(1) True] show ?thesis
      using Ref True ru_length[OF assms(1)] by (auto simp: arr_elems_def cell_at_def)
  next
    case False
    then show ?thesis using Ref ru_length[OF assms(1)] by (simp add: arr_elems_def cell_at_def)
  qed
qed (simp_all add: arr_elems_def)

lemma ru_obj_props:
  assumes "ru_only h h'" "obj_props h v = Some q"
  shows "\<exists>q'. obj_props h' v = Some q' \<and> (\<forall>k. k \<noteq> ''resolvedUri'' \<longrightarrow> q' k = q k)"
proof -
  from obj_props_SomeD[OF assms(2)] obtain a where a: "v = Ref a" "a < length h" "h ! a = Obj q"
    by blast
  from ru_cell[OF assms(1) a(2)] a(3) obtain q' where
    "h' ! a = Obj q'" "\<forall>k. k \<noteq> ''resolvedUri'' \<longrightarrow> q' k = q k" by auto
  then show ?thesis using a ru_length[OF assms(1)] by (simp add: obj_props_def cell_at_def)
qed

lemma ru_is_obj: "ru_only h h' \<Longrightarrow> is_obj h v \<Longrightarrow> is_obj h' v"
  using ru_obj_props[of h h' v] by (auto simp: is_obj_def)

lemma opt_ok_mono: "opt_ok P x \<Longrightarrow> (\<And>v. P v \<Longrightarrow> Q v) \<Longrightarrow> opt_ok Q x"
  by (cases x) (simp_all add: opt_ok_def)

lemma ru_segment_ok:
  assumes "ru_only h h'" "segment_ok h v"
  shows "segment_ok h' v"
proof -
  from assms(2) obtain q where q: "obj_props h v = Some q"
    "opt_ok (is_obj h) (q ''key'')" "opt_ok (is_obj h) (q ''map'')"
    by (auto simp: segment_ok_def split: option.splits)
  from ru_obj_props[OF assms(1) q(1)] obtain q' where
    q': "obj_props h' v = Some q'" "q' ''key'' = q ''key''" "q' ''map'' = q ''map''"
    by auto
  show ?thesis
    using q' q(2,3) opt_ok_mono[OF _ ru_is_obj[OF assms(1)]]
    by (auto simp: segment_ok_def)
qed

lemma get_obj_props: "obj_props h v = Some q \<Longrightarrow> get h v k = Inr (lookup q k)"
  using obj_props_SomeD[of h v q] by (auto simp: cell_at_def)

lemma put_obj_props:
  assumes "obj_props h v = Some q"
  shows "\<exists>a. v = Ref a \<and> cell_at h a = Some (Obj q) \<and> put h v k x = Inr (h[a := Obj (q(k \<mapsto> x))])"
proof -
  from obj_props_SomeD[OF assms] obtain a where a: "v = Ref a" "a < length h" "h ! a = Obj q"
    by blast
  then have c: "cell_at h a = Some (Obj q)" by (simp add: cell_at_def)
  then have "put h (Ref a) k x = Inr (h[a := Obj (q(k \<mapsto> x))])" by simp
  with a(1) c show ?thesis by blast
qed

lemma resolve_sub_ok:
  assumes seg: "obj_props h seg = Some sp" "opt_ok (is_obj h) (sp k)"
    and pl: "is_obj h playlist"
  shows "\<exists>h'. resolve_sub rs playlist seg k h = Inr h' \<and> ru_only h h'"
proof (cases "sp k")
  case None
  then show ?thesis
    by (simp add: resolve_sub_def get_obj_props[OF seg(1)] lookup_def del: get.simps)
next
  case (Some sub)
  with seg(2) obtain q where q: "obj_props h sub = Some q"
    by (auto simp: opt_ok_def is_obj_def)
  from pl obtain pp where pp: "obj_props h playlist = Some pp" by (auto simp: is_obj_def)
  from put_obj_props[OF q, of "''resolvedUri''"] obtain b where
    b: "sub = Ref b" "cell_at h b = Some (Obj q)"
    by blast
  have gq: "\<And>k. get h (Ref b) k = Inr (lookup q k)"
    using b(2) by simp
  have pq: "\<And>x. put h (Ref b) ''resolvedUri'' x = Inr (h[b := Obj (q(''resolvedUri'' \<mapsto> x))])"
    using b(2) by simp
  have gs: "get h seg k = Inr (Ref b)"
    using get_obj_props[OF seg(1), of k] Some b(1) by (simp add: lookup_def)
  show ?thesis
    using ru_put[OF b(2)]
    by (simp add: resolve_sub_def gs gq pq get_obj_props[OF pp] del: get.simps put.simps)
qed

lemma resolve_loop_ok:
  assumes "get h result ''playlists'' = Inr pls" "get_idx h pls i = Inr cur"
    and "get h cur ''segments'' = Inr segs" "arr_elems h segs = Some ses"
    and "list_all (segment_ok h) ses" "is_obj h playlist" "j \<le> length ses"
  shows "\<exists>h'. resolve_loop rs result i playlist j h = Inr h' \<and> ru_only h h'"
  using assms
proof (induction j arbitrary: h)
  case 0
  then show ?case by simp
next
  case (Suc j)
  from Suc.prems(4) obtain sa sps where sa: "segs = Ref sa" "cell_at h sa = Some (Arr ses sps)"
    by (auto simp: arr_elems_def split: val.splits option.splits cell.splits)
  have jl: "j < length ses" using Suc.prems(7) by simp
  then have sok: "segment_ok h (ses ! j)" using Suc.prems(5) by (simp add: list_all_length)
  then obtain sp where sp: "obj_props h (ses ! j) = Some sp"
    by (auto simp: segment_ok_def split: option.splits)
  from Suc.prems(6) obtain pp where pp: "obj_props h playlist = Some pp" by (auto simp: is_obj_def)
  have g4: "get_idx h segs (real j) = Inr (ses ! j)"
    using sa jl by simp
  obtain h1 where h1: "(if truthy (lookup sp ''resolvedUri'') then Inr h
          else put h (ses ! j) ''resolvedUri'' (rs (lookup pp ''resolvedUri'') (lookup sp ''uri''))) = Inr h1"
      "ru_only h h1"
  proof (cases "truthy (lookup sp ''resolvedUri'')")
    case True
    then show ?thesis using that by simp
  next
    case False
    from put_obj_props[OF sp, of "''resolvedUri''" "rs (lookup pp ''resolvedUri'') (lookup sp ''uri'')"]
    obtain a where
      a: "cell_at h a = Some (Obj sp)"
         "put h (ses ! j) ''resolvedUri'' (rs (lookup pp ''resolvedUri'') (lookup sp ''uri''))
            = Inr (h[a := Obj (sp(''resolvedUri'' \<mapsto> rs (lookup pp ''resolvedUri'') (lookup sp ''uri'')))])"
      by blast
    show ?thesis using that[OF _ ru_put[OF a(1)]] False a(2) by simp
  qed
  have sok1: "segment_ok h1 (ses ! j)" by (rule ru_segment_ok[OF h1(2) sok])
  then obtain sp1 where sp1: "obj_props h1 (ses ! j) = Some sp1"
    "opt_ok (is_obj h1) (sp1 ''key'')"
    by (auto simp: segment_ok_def split: option.splits)
  from resolve_sub_ok[OF sp1 ru_is_obj[OF h1(2) Suc.prems(6)], of rs]
  obtain h2 where h2: "resolve_sub rs playlist (ses ! j) ''key'' h1 = Inr h2" "ru_only h1 h2"
    by blast
  have sok2: "segment_ok h2 (ses ! j)" by (rule ru_segment_ok[OF h2(2) sok1])
  then obtain sp2 where sp2: "obj_props h2 (ses ! j) = Some sp2"
    "opt_ok (is_obj h2) (sp2 ''map'')"
    by (auto simp: segment_ok_def split: option.splits)
  have r02: "ru_only h h2" by (rule ru_trans[OF h1(2) h2(2)])
  from resolve_sub_ok[OF sp2 ru_is_obj[OF r02 Suc.prems(6)], of rs]
  obtain h3 where h3: "resolve_sub rs playlist (ses ! j) ''map'' h2 = Inr h3" "ru_only h2 h3"
    by blast
  have r03: "ru_only h h3" by (rule ru_trans[OF r02 h3(2)])
  have p1: "get h3 result ''playlists'' = Inr pls"
    using ru_get[OF r03, of "''playlists''"] Suc.prems(1) by simp
  have p2: "get_idx h3 pls i = Inr cur"
    using ru_get_idx[OF r03] Suc.prems(2) by simp
  have p3: "get h3 cur ''segments'' = Inr segs"
    using ru_get[OF r03, of "''segments''"] Suc.prems(3) by simp
  have p4: "arr_elems h3 segs = Some ses"
    using ru_arr_elems[OF r03] Suc.prems(4) by simp
  have p5: "list_all (segment_ok h3) ses"
    using Suc.prems(5) ru_segment_ok[OF r03] by (simp add: list_all_length)
  have p6: "is_obj h3 playlist" by (rule ru_is_obj[OF r03 Suc.prems(6)])
  from Suc.IH[OF p1 p2 p3 p4 p5 p6] jl obtain h' where
    h': "resolve_loop rs result i playlist j h3 = Inr h'" "ru_only h3 h'"
    by auto
  have step: "resolve_loop rs result i playlist (Suc j) h =
      bnd (if truthy (lookup sp ''resolvedUri'') then Inr h
           else put h (ses ! j) ''resolvedUri'' (rs (lookup pp ''resolvedUri'') (lookup sp ''uri'')))
        (\<lambda>h1. bnd (resolve_sub rs playlist (ses ! j) ''key'' h1)
        (\<lambda>h2. bnd (resolve_sub rs playlist (ses ! j) ''map'' h2)
        (resolve_loop rs result i playlist j)))"
    using Suc.prems(1,2,3) g4
    by (simp add: get_obj_props[OF sp] get_obj_props[OF pp] del: get.simps get_idx.simps put.simps)
  have "resolve_loop rs result i playlist (Suc j) h = Inr h'"
    by (simp only: step h1(1) h2(1) h3(1) h'(1) bnd_Inr)
  then show ?case using ru_trans[OF r03 h'(2)] by blast
qed

lemma arr_elems_SomeD:
  "arr_elems h v = Some es \<Longrightarrow> \<exists>a ps. v = Ref a \<and> a < length h \<and> h ! a = Arr es ps"
  by (auto simp: arr_elems_def cell_at_def split: val.splits option.splits cell.splits if_splits)

lemma merge_invD:
  assumes "merge_inv h m pa pes md u sa ses q"
  shows "\<exists>mp pp dp sp. m < length h \<and> h ! m = Obj mp \<and> mp ''playlists'' = Some (Ref pa)
      \<and> pa < length h \<and> h ! pa = Arr pes pp
      \<and> md < length h \<and> h ! md = Obj dp \<and> dp ''uri'' = Some (S u) \<and> dp ''segments'' = Some (Ref sa)
      \<and> dp ''mediaSequence'' = Some (N q)
      \<and> sa < length h \<and> h ! sa = Arr ses sp"
proof -
  from assms obtain mp where mp: "obj_props h (Ref m) = Some mp" "mp ''playlists'' = Some (Ref pa)"
    by (auto simp: merge_inv_def split: option.splits)
  from assms obtain dp where dp: "obj_props h (Ref md) = Some dp" "dp ''uri'' = Some (S u)"
    "dp ''segments'' = Some (Ref sa)" "dp ''mediaSequence'' = Some (N q)"
    by (auto simp: merge_inv_def split: option.splits)
  from assms have "arr_elems h (Ref pa) = Some pes" "arr_elems h (Ref sa) = Some ses"
    by (simp_all add: merge_inv_def)
  from arr_elems_SomeD[OF this(1)] arr_elems_SomeD[OF this(2)]
    obj_props_SomeD[OF mp(1)] obj_props_SomeD[OF dp(1)] mp(2) dp(2,3,4)
  show ?thesis by auto
qed

lemma ru_playlist_ok:
  assumes "ru_only h h'" "playlist_ok h v"
  shows "playlist_ok h' v"
proof -
  from assms(2) obtain q where q: "obj_props h v = Some q"
    "opt_ok (\<lambda>x. arr_elems h x \<noteq> None) (q ''segments'')"
    by (auto simp: playlist_ok_def split: option.splits)
  from ru_obj_props[OF assms(1) q(1)] obtain q' where
    q': "obj_props h' v = Some q'" "q' ''segments'' = q ''segments''"
    by auto
  show ?thesis
    using q' q(2) by (simp add: playlist_ok_def ru_arr_elems[OF assms(1)])
qed

lemma ru_merge_inv:
  assumes "ru_only h h'" "merge_inv h m pa pes md u sa ses q"
  shows "merge_inv h' m pa pes md u sa ses q"
proof -
  from assms(2) obtain mp where mp: "obj_props h (Ref m) = Some mp" "mp ''playlists'' = Some (Ref pa)"
    by (auto simp: merge_inv_def split: option.splits)
  from assms(2) obtain dp where dp: "obj_props h (Ref md) = Some dp" "dp ''uri'' = Some (S u)"
    "dp ''segments'' = Some (Ref sa)" "dp ''mediaSequence'' = Some (N q)"
    by (auto simp: merge_inv_def split: option.splits)
  from ru_obj_props[OF assms(1) mp(1)] mp(2) obtain mp' where
    mp': "obj_props h' (Ref m) = Some mp'" "mp' ''playlists'' = Some (Ref pa)" by auto
  from ru_obj_props[OF assms(1) dp(1)] dp(2,3,4) obtain dp' where
    dp': "obj_props h' (Ref md) = Some dp'" "dp' ''uri'' = Some (S u)"
    "dp' ''segments'' = Some (Ref sa)" "dp' ''mediaSequence'' = Some (N q)" by auto
  have "list_all (playlist_ok h') pes" "list_all (segment_ok h') ses"
    using assms(2) ru_playlist_ok[OF assms(1)] ru_segment_ok[OF assms(1)]
    by (auto simp: merge_inv_def list_all_iff)
  then show ?thesis
    using assms(2) mp' dp' by (simp add: merge_inv_def ru_arr_elems[OF assms(1)])
qed

lemma obj_propsI: "a < length h \<Longrightarrow> h ! a = Obj q \<Longrightarrow> obj_props h (Ref a) = Some q"
  by (simp add: obj_props_def cell_at_def)

lemma arr_elemsI: "a < length h \<Longrightarrow> h ! a = Arr es ps \<Longrightarrow> arr_elems h (Ref a) = Some es"
  by (simp add: arr_elems_def cell_at_def)

lemma get_I: "a < length h \<Longrightarrow> h ! a = Obj q \<Longrightarrow> get h (Ref a) k = Inr (lookup q k)"
  by (simp add: cell_at_def)

lemma playlist_okD:
  "playlist_ok h v \<Longrightarrow>
     \<exists>p po. v = Ref p \<and> p < length h \<and> h ! p = Obj po
        \<and> opt_ok (\<lambda>x. arr_elems h x \<noteq> None) (po ''segments'')"
  using obj_props_SomeD[of h v] by (auto simp: playlist_ok_def split: option.splits)

lemma segment_okD:
  "segment_ok h v \<Longrightarrow>
     \<exists>s sp. v = Ref s \<and> s < length h \<and> h ! s = Obj sp
        \<and> opt_ok (is_obj h) (sp ''key'') \<and> opt_ok (is_obj h) (sp ''map'')"
  using obj_props_SomeD[of h v] by (auto simp: segment_ok_def split: option.splits)

text \<open>The store after lines 71 to 82, before the loop that resolves the URIs.\<close>

lemma merge_playlist_ok:
  assumes inv: "merge_inv h m pa pes md u sa ses q"
    and i: "i < length pes"
  shows "\<exists>h'. merge_playlist rs (Ref m) (Ref md) (real i) (pes ! i) h = Inr h'
      \<and> merge_inv h' m pa pes md u sa ses q"
proof -
  from merge_invD[OF inv] obtain mp pp dp sp where
    m: "m < length h" "h ! m = Obj mp" "mp ''playlists'' = Some (Ref pa)"
    and pa: "pa < length h" "h ! pa = Arr pes pp"
    and md: "md < length h" "h ! md = Obj dp" "dp ''uri'' = Some (S u)" "dp ''segments'' = Some (Ref sa)"
      "dp ''mediaSequence'' = Some (N q)"
    and sa: "sa < length h" "h ! sa = Arr ses sp"
    by blast
  from inv have pok: "list_all (playlist_ok h) pes" and sok: "list_all (segment_ok h) ses"
    and u: "\<not> array_key u"
    and sep: "Ref m \<notin> set pes" "Ref md \<notin> set pes" "set pes \<inter> set ses = {}"
    by (simp_all add: merge_inv_def)
  have pin: "pes ! i \<in> set pes" using i by simp
  from pok i have "playlist_ok h (pes ! i)" by (simp add: list_all_length)
  from playlist_okD[OF this] obtain p po where
    p: "pes ! i = Ref p" "p < length h" "h ! p = Obj po" by blast
  have pm: "p \<noteq> m" using sep(1) pin p(1) by auto
  have pmd: "p \<noteq> md" using sep(2) pin p(1) by auto
  have ppa: "p \<noteq> pa" using p(3) pa(2) by auto
  have psa: "p \<noteq> sa" using p(3) sa(2) by auto
  have pses: "Ref p \<notin> set ses" using sep(3) pin p(1) by auto
  have sapa: "sa \<noteq> pa"
  proof
    assume "sa = pa"
    then have "ses = pes" using sa(2) pa(2) by simp
    then show False using sep(3) pin by auto
  qed
  have mpa: "m \<noteq> pa" using m(2) pa(2) by auto
  have mdpa: "md \<noteq> pa" using md(2) pa(2) by auto
  define pd where "pd = po ++ dp"
  have pd: "lookup pd ''segments'' = Ref sa" "lookup pd ''mediaSequence'' = N q"
    using md(4,5) by (simp_all add: pd_def lookup_def)
  define h1 where "h1 = h[p := Obj pd]"
  define h3 where "h3 = h1[pa := Arr pes (pp(u \<mapsto> Ref p))]"
  define r where "r = length h"
  define h4 where "h4 = h3 @ [Arr ses Map.empty]"
  define h5 where "h5 = h4[p := Obj (pd(''segments'' \<mapsto> Ref r))]"
  have l1: "length h1 = length h" "length h3 = length h" "length h4 = Suc (length h)"
    "length h5 = Suc (length h)"
    by (simp_all add: h1_def h3_def h4_def h5_def)
  \<comment> \<open>line 71\<close>
  have s1: "get h (Ref m) ''playlists'' = Inr (Ref pa)"
    using get_I[OF m(1,2)] m(3) by (simp add: lookup_def)
  have s2: "object_assign h (Ref p) (Ref md) = Inr (Ref p, h1)"
    using p(2,3) md(1,2) by (simp add: cell_at_def h1_def pd_def)
  have h1pa: "h1 ! pa = Arr pes pp" using pa ppa by (simp add: h1_def)
  have s3: "put_idx h1 (Ref pa) (real i) (Ref p) = Inr h1"
  proof -
    have "pes[i := Ref p] = pes" using p(1) list_update_id[of pes i] by simp
    moreover have "h1[pa := Arr pes pp] = h1" using h1pa list_update_id[of h1 pa] by simp
    ultimately show ?thesis
      using put_idx_Arr[of pa h1 pes pp i "Ref p"] pa(1) h1pa i l1(1) by simp
  qed
  \<comment> \<open>line 72\<close>
  have h1m: "h1 ! m = Obj mp" using m pm by (simp add: h1_def)
  have h1md: "h1 ! md = Obj dp" using md pmd by (simp add: h1_def)
  have s4: "get h1 (Ref m) ''playlists'' = Inr (Ref pa)"
    using get_I[of m h1 mp] m(1,3) h1m l1(1) by (simp add: lookup_def)
  have s5: "get h1 (Ref md) ''uri'' = Inr (S u)"
    using get_I[of md h1 dp] md(1,3) h1md l1(1) by (simp add: lookup_def)
  have s6: "get_idx h1 (Ref pa) (real i) = Inr (Ref p)"
    using get_idx_Arr[of pa h1 pes pp i] pa(1) h1pa i p(1) l1(1) by simp
  have s7: "put_key h1 (Ref pa) (S u) (Ref p) = Inr h3"
    using pa(1) h1pa u l1(1) by (simp add: put_key_def to_key_def cell_at_def h3_def)
  \<comment> \<open>lines 76 to 82\<close>
  have h3p: "h3 ! p = Obj pd" using p(2) ppa by (simp add: h3_def h1_def)
  have h3m: "h3 ! m = Obj mp" using h1m mpa by (simp add: h3_def)
  have h3md: "h3 ! md = Obj dp" using h1md mdpa by (simp add: h3_def)
  have h3pa: "h3 ! pa = Arr pes (pp(u \<mapsto> Ref p))" using pa(1) l1(1) by (simp add: h3_def)
  have h3sa: "h3 ! sa = Arr ses sp" using sa psa sapa by (simp add: h3_def h1_def)
  have s8: "get h3 (Ref p) ''segments'' = Inr (Ref sa)"
    using get_I[of p h3 pd] p(2) h3p l1(2) pd(1) by simp
  have s9: "get h3 (Ref m) ''playlists'' = Inr (Ref pa)"
    using get_I[of m h3 mp] m(1,3) h3m l1(2) by (simp add: lookup_def)
  have s10: "get_idx h3 (Ref pa) (real i) = Inr (Ref p)"
    using get_idx_Arr[of pa h3 pes _ i] pa(1) h3pa i p(1) l1(2) by simp
  have s11: "get h3 (Ref md) ''segments'' = Inr (Ref sa)"
    using get_I[of md h3 dp] md(1,4) h3md l1(2) by (simp add: lookup_def)
  have s12: "get h3 (Ref md) ''mediaSequence'' = Inr (N q)"
    using get_I[of md h3 dp] md(1,5) h3md l1(2) by (simp add: lookup_def)
  have s13: "get h3 (Ref p) ''mediaSequence'' = Inr (N q)"
    using get_I[of p h3 pd] p(2) h3p l1(2) pd(2) by simp
  have s14: "js_sub (N q) (N q) = Inr (N 0)" by (simp add: js_sub_def)
  have segobj: "\<And>v. v \<in> set ses \<Longrightarrow> \<exists>s sq. v = Ref s \<and> s < length h \<and> h ! s = Obj sq \<and> s \<noteq> p \<and> s \<noteq> pa
      \<and> opt_ok (is_obj h) (sq ''key'') \<and> opt_ok (is_obj h) (sq ''map'')"
  proof -
    fix v assume v: "v \<in> set ses"
    then have "segment_ok h v" using sok by (simp add: list_all_iff)
    from segment_okD[OF this] obtain s sq where
      s: "v = Ref s" "s < length h" "h ! s = Obj sq"
        "opt_ok (is_obj h) (sq ''key'')" "opt_ok (is_obj h) (sq ''map'')" by blast
    have "s \<noteq> p" using v s(1) pses by auto
    moreover have "s \<noteq> pa" using s(3) pa(2) by auto
    ultimately show "\<exists>s sq. v = Ref s \<and> s < length h \<and> h ! s = Obj sq \<and> s \<noteq> p \<and> s \<noteq> pa
      \<and> opt_ok (is_obj h) (sq ''key'') \<and> opt_ok (is_obj h) (sq ''map'')"
      using s by blast
  qed
  have objs3: "list_all (is_obj h3) ses"
    unfolding list_all_iff
  proof
    fix v assume "v \<in> set ses"
    from segobj[OF this] obtain s sq where s: "v = Ref s" "s < length h" "h ! s = Obj sq" "s \<noteq> p" "s \<noteq> pa"
      by blast
    then have "h3 ! s = Obj sq" by (simp add: h3_def h1_def)
    then show "is_obj h3 v" using s(1,2) l1(2) by (simp add: is_obj_def obj_propsI)
  qed
  have s15: "updateSegments h3 (Ref sa) (Ref sa) (N 0) = Inr (Ref r, h4)"
    using updateSegments_self[of h3 sa ses sp "N 0"] objs3 sa(1) h3sa l1(2)
    by (simp add: cell_at_def as_counter_def js_or_def r_def h4_def)
  have h4p: "h4 ! p = Obj pd" using h3p p(2) l1(2) by (simp add: h4_def nth_append)
  have s16: "put h4 (Ref p) ''segments'' (Ref r) = Inr h5"
    using h4p p(2) l1(3) by (simp add: cell_at_def h5_def)
  \<comment> \<open>the shape of the store before the loop of lines 88 to 99\<close>
  have old: "\<And>a. a < length h \<Longrightarrow> a \<noteq> p \<Longrightarrow> a \<noteq> pa \<Longrightarrow> h5 ! a = h ! a"
    by (simp add: h5_def h4_def h3_def h1_def nth_append)
  have h5p: "h5 ! p = Obj (pd(''segments'' \<mapsto> Ref r))"
    using p(2) l1(3) by (simp add: h5_def)
  have h5pa: "h5 ! pa = Arr pes (pp(u \<mapsto> Ref p))"
    using pa(1) ppa l1(2) h3pa by (simp add: h5_def h4_def nth_append)
  have h5r: "h5 ! r = Arr ses Map.empty"
    using p(2) l1(2) by (simp add: h5_def h4_def r_def nth_append)
  have h5m: "h5 ! m = Obj mp" using old[OF m(1) pm[symmetric] mpa] m(2) by simp
  have h5md: "h5 ! md = Obj dp" using old[OF md(1) pmd[symmetric] mdpa] md(2) by simp
  have h5sa: "h5 ! sa = Arr ses sp" using old[OF sa(1) psa[symmetric] sapa] sa(2) by simp
  have objmono: "\<And>v. is_obj h v \<Longrightarrow> is_obj h5 v"
  proof -
    fix v assume "is_obj h v"
    then obtain a b where a: "v = Ref a" "a < length h" "h ! a = Obj b"
      using obj_props_SomeD[of h v] by (auto simp: is_obj_def)
    have "a \<noteq> pa" using a(3) pa(2) by auto
    then have "\<exists>b'. h5 ! a = Obj b'" using old[OF a(2)] a(3) h5p by (cases "a = p") auto
    then show "is_obj h5 v" using a(1,2) l1(4) by (auto simp: is_obj_def obj_propsI)
  qed
  have arrmono: "\<And>v. arr_elems h v \<noteq> None \<Longrightarrow> arr_elems h5 v \<noteq> None"
  proof -
    fix v assume "arr_elems h v \<noteq> None"
    then obtain a es ps where a: "v = Ref a" "a < length h" "h ! a = Arr es ps"
      using arr_elems_SomeD[of h v] by auto
    have "a \<noteq> p" using a(3) p(3) by auto
    then have "\<exists>es' ps'. h5 ! a = Arr es' ps'" using old[OF a(2)] a(3) h5pa by (cases "a = pa") auto
    then show "arr_elems h5 v \<noteq> None" using a(1,2) l1(4) by (auto simp: arr_elemsI)
  qed
  have inv5: "merge_inv h5 m pa pes md u sa ses q"
  proof -
    have a: "obj_props h5 (Ref m) = Some mp" using obj_propsI[of m h5 mp] m(1) h5m l1(4) by simp
    have b: "arr_elems h5 (Ref pa) = Some pes" using arr_elemsI[of pa h5 pes] pa(1) h5pa l1(4) by simp
    have c: "obj_props h5 (Ref md) = Some dp" using obj_propsI[of md h5 dp] md(1) h5md l1(4) by simp
    have d: "arr_elems h5 (Ref sa) = Some ses" using arr_elemsI[of sa h5 ses] sa(1) h5sa l1(4) by simp
    have rr: "arr_elems h5 (Ref r) = Some ses" using arr_elemsI[of r h5 ses] h5r l1(4) by (simp add: r_def)
    have e: "list_all (playlist_ok h5) pes"
      unfolding list_all_iff
    proof
      fix v assume v: "v \<in> set pes"
      then have "playlist_ok h v" using pok by (simp add: list_all_iff)
      from playlist_okD[OF this] obtain p' po' where
        p': "v = Ref p'" "p' < length h" "h ! p' = Obj po'"
          "opt_ok (\<lambda>x. arr_elems h x \<noteq> None) (po' ''segments'')" by blast
      show "playlist_ok h5 v"
      proof (cases "p' = p")
        case True
        have "obj_props h5 (Ref p) = Some (pd(''segments'' \<mapsto> Ref r))"
          using obj_propsI[of p h5] p(2) h5p l1(4) by simp
        then show ?thesis using True p'(1) rr by (simp add: playlist_ok_def opt_ok_def)
      next
        case False
        have "p' \<noteq> pa" using p'(3) pa(2) by auto
        then have "h5 ! p' = Obj po'" using old[OF p'(2) False] p'(3) by simp
        then have "obj_props h5 (Ref p') = Some po'" using obj_propsI[of p' h5] p'(2) l1(4) by simp
        then show ?thesis
          using p'(1) opt_ok_mono[OF p'(4), of "\<lambda>x. arr_elems h5 x \<noteq> None"] arrmono
          by (simp add: playlist_ok_def)
      qed
    qed
    have f: "list_all (segment_ok h5) ses"
      unfolding list_all_iff
    proof
      fix v assume "v \<in> set ses"
      from segobj[OF this] obtain s sq where
        s: "v = Ref s" "s < length h" "h ! s = Obj sq" "s \<noteq> p" "s \<noteq> pa"
          "opt_ok (is_obj h) (sq ''key'')" "opt_ok (is_obj h) (sq ''map'')" by blast
      have "h5 ! s = Obj sq" using old[OF s(2,4,5)] s(3) by simp
      then have "obj_props h5 (Ref s) = Some sq" using obj_propsI[of s h5] s(2) l1(4) by simp
      then show "segment_ok h5 v"
        using s(1) opt_ok_mono[OF s(6), of "is_obj h5"] opt_ok_mono[OF s(7), of "is_obj h5"] objmono
        by (simp add: segment_ok_def)
    qed
    show ?thesis
      using a b c d e f m(3) md(3,4,5) u sep by (simp add: merge_inv_def)
  qed
  \<comment> \<open>lines 84 to 99\<close>
  have t1: "get h5 (Ref m) ''playlists'' = Inr (Ref pa)"
    using get_I[of m h5 mp] m(1,3) h5m l1(4) by (simp add: lookup_def)
  have t2: "get_idx h5 (Ref pa) (real i) = Inr (Ref p)"
    using get_idx_Arr[of pa h5 pes _ i] pa(1) h5pa i p(1) l1(4) by simp
  have t3: "get h5 (Ref p) ''segments'' = Inr (Ref r)"
    using get_I[of p h5] p(2) h5p l1(4) by (simp add: lookup_def)
  have t4: "get h5 (Ref r) ''length'' = Inr (N (real (length ses)))"
    using get_length_Arr[of r h5 ses] h5r l1(4) by (simp add: r_def)
  have t5: "loop_count (N (real (length ses))) = Inr (length ses)"
    by (simp add: loop_count_def)
  have rr: "arr_elems h5 (Ref r) = Some ses" using arr_elemsI[of r h5 ses] h5r l1(4) by (simp add: r_def)
  have sok5: "list_all (segment_ok h5) ses" using inv5 by (simp add: merge_inv_def)
  have pobj: "is_obj h5 (Ref p)"
    using obj_propsI[of p h5] p(2) h5p l1(4) by (simp add: is_obj_def)
  from resolve_loop_ok[OF t1 t2 t3 rr sok5 pobj order_refl, of rs]
  obtain h6 where h6: "resolve_loop rs (Ref m) (real i) (Ref p) (length ses) h5 = Inr h6" "ru_only h5 h6"
    by blast
  have run: "merge_playlist rs (Ref m) (Ref md) (real i) (pes ! i) h = Inr h6"
    unfolding merge_playlist_def p(1)
    by (simp add: s1 s2 s3 s4 s5 s6 s7 s8 s9 s10 s11 s12 s13 s14 s15 s16 t1 t2 t3 t4 t5 h6(1)
        del: get.simps get_idx.simps put.simps put_idx.simps object_assign.simps)
  show ?thesis using run ru_merge_inv[OF h6(2) inv5] by blast
qed

lemma unchanged_rep:
  assumes inv: "merge_inv h m pa pes md u sa ses q"
    and v: "v \<in> set pes"
  shows "unchanged h v (Ref md) = Inr (no_update h v (Ref md))"
proof -
  from merge_invD[OF inv] obtain mp pp dp sp where
    md: "md < length h" "h ! md = Obj dp" "dp ''segments'' = Some (Ref sa)"
      "dp ''mediaSequence'' = Some (N q)"
    and sa: "sa < length h" "h ! sa = Arr ses sp"
    by blast
  from inv v have "playlist_ok h v" by (simp add: merge_inv_def list_all_iff)
  from playlist_okD[OF this] obtain p po where
    p: "v = Ref p" "p < length h" "h ! p = Obj po"
      "opt_ok (\<lambda>x. arr_elems h x \<noteq> None) (po ''segments'')" by blast
  have gp: "\<And>k. get h (Ref p) k = Inr (lookup po k)" using get_I[OF p(2,3)] by simp
  have gm: "\<And>k. get h (Ref md) k = Inr (lookup dp k)" using get_I[OF md(1,2)] by simp
  have op: "obj_props h (Ref p) = Some po" using obj_propsI[OF p(2,3)] .
  have om: "obj_props h (Ref md) = Some dp" using obj_propsI[OF md(1,2)] .
  have cm: "seg_count h (Ref md) = Some (length ses)"
    using om md(3) arr_elemsI[OF sa] by (simp add: seg_count_def)
  have fm: "field_of h (Ref md) ''mediaSequence'' = N q"
    using om md(4) by (simp add: field_of_def lookup_def)
  have ld: "lookup dp ''segments'' = Ref sa" "lookup dp ''mediaSequence'' = N q"
    using md(3,4) by (simp_all add: lookup_def)
  have gl: "get h (Ref sa) ''length'' = Inr (N (real (length ses)))"
    using get_length_Arr[OF sa] .
  show ?thesis
  proof (cases "po ''segments''")
    case None
    then have "seg_count h (Ref p) = None" using op by (simp add: seg_count_def)
    then show ?thesis
      using None cm by (simp add: unchanged_def p(1) gp lookup_def no_update_def del: get.simps)
  next
    case (Some x)
    with p(4) obtain es where "arr_elems h x = Some es" by (auto simp: opt_ok_def)
    from arr_elems_SomeD[OF this] obtain a ps where a: "x = Ref a" "a < length h" "h ! a = Arr es ps"
      by blast
    have cp: "seg_count h (Ref p) = Some (length es)"
      using op Some a arr_elemsI[OF a(2,3)] by (simp add: seg_count_def)
    have fp: "field_of h (Ref p) ''mediaSequence'' = lookup po ''mediaSequence''"
      using op by (simp add: field_of_def)
    have lp: "lookup po ''segments'' = Ref a" using Some a(1) by (simp add: lookup_def)
    have ga: "get h (Ref a) ''length'' = Inr (N (real (length es)))"
      using get_length_Arr[OF a(2,3)] .
    show ?thesis
      by (auto simp add: unchanged_def p(1) gp gm lp ld ga gl no_update_def cp cm fp fm strict_eq_def
          simp del: get.simps)
  qed
qed

lemma um_loop_ok:
  assumes "merge_inv h m pa pes md u sa ses q" "n \<le> length pes"
  shows "\<exists>c h'. um_loop rs (Ref m) (Ref md) n changed h = Inr (c, h')
      \<and> (c \<longleftrightarrow> changed \<or> (\<exists>i<n. field_of h (pes ! i) ''uri'' = S u \<and> \<not> no_update h (pes ! i) (Ref md)))
      \<and> merge_inv h' m pa pes md u sa ses q"
  using assms
proof (induction n arbitrary: changed h)
  case 0
  then show ?case by simp
next
  case (Suc n)
  note inv = Suc.prems(1)
  have n: "n < length pes" "n \<le> length pes" using Suc.prems(2) by simp_all
  from merge_invD[OF inv] obtain mp pp dp sp where
    m: "m < length h" "h ! m = Obj mp" "mp ''playlists'' = Some (Ref pa)"
    and pa: "pa < length h" "h ! pa = Arr pes pp"
    and md: "md < length h" "h ! md = Obj dp" "dp ''uri'' = Some (S u)"
    by blast
  have vin: "pes ! n \<in> set pes" using n(1) by simp
  from inv vin have "playlist_ok h (pes ! n)" by (simp add: merge_inv_def list_all_iff)
  from playlist_okD[OF this] obtain p po where
    p: "pes ! n = Ref p" "p < length h" "h ! p = Obj po" by blast
  have g1: "get h (Ref m) ''playlists'' = Inr (Ref pa)"
    using get_I[OF m(1,2)] m(3) by (simp add: lookup_def)
  have g2: "get_idx h (Ref pa) (real n) = Inr (pes ! n)"
    using get_idx_Arr[OF pa, of n] n(1) by simp
  have g3: "get h (pes ! n) ''uri'' = Inr (lookup po ''uri'')"
    using get_I[OF p(2,3)] p(1) by simp
  have g4: "get h (Ref md) ''uri'' = Inr (S u)"
    using get_I[OF md(1,2)] md(3) by (simp add: lookup_def)
  have fu: "field_of h (pes ! n) ''uri'' = lookup po ''uri''"
    using obj_propsI[OF p(2,3)] p(1) by (simp add: field_of_def)
  have g5: "unchanged h (pes ! n) (Ref md) = Inr (no_update h (pes ! n) (Ref md))"
    by (rule unchanged_rep[OF inv vin])
  have step: "um_loop rs (Ref m) (Ref md) (Suc n) changed h =
      (if \<not> strict_eq (lookup po ''uri'') (S u) then um_loop rs (Ref m) (Ref md) n changed h
       else if no_update h (pes ! n) (Ref md) then um_loop rs (Ref m) (Ref md) n changed h
       else bnd (merge_playlist rs (Ref m) (Ref md) (real n) (pes ! n) h)
              (um_loop rs (Ref m) (Ref md) n True))"
    by (simp add: g1 g2 g3 g4 g5 del: get.simps get_idx.simps)
  have se: "strict_eq (lookup po ''uri'') (S u) = (field_of h (pes ! n) ''uri'' = S u)"
    by (auto simp: strict_eq_def fu)
  show ?case
  proof (cases "field_of h (pes ! n) ''uri'' = S u \<and> \<not> no_update h (pes ! n) (Ref md)")
    case True
    from merge_playlist_ok[OF inv n(1), of rs] obtain h1 where
      h1: "merge_playlist rs (Ref m) (Ref md) (real n) (pes ! n) h = Inr h1"
        "merge_inv h1 m pa pes md u sa ses q" by blast
    from Suc.IH[OF h1(2) n(2), of True] obtain c h' where
      r: "um_loop rs (Ref m) (Ref md) n True h1 = Inr (c, h')" "c" "merge_inv h' m pa pes md u sa ses q"
      by auto
    have "um_loop rs (Ref m) (Ref md) (Suc n) changed h = Inr (c, h')"
      using True by (simp only: step se h1(1) bnd_Inr r(1)) simp
    then show ?thesis using r(2,3) True by blast
  next
    case False
    from Suc.IH[OF inv n(2), of changed] obtain c h' where
      r: "um_loop rs (Ref m) (Ref md) n changed h = Inr (c, h')"
        "c \<longleftrightarrow> changed \<or> (\<exists>i<n. field_of h (pes ! i) ''uri'' = S u \<and> \<not> no_update h (pes ! i) (Ref md))"
        "merge_inv h' m pa pes md u sa ses q"
      by blast
    have run: "um_loop rs (Ref m) (Ref md) (Suc n) changed h = Inr (c, h')"
      using False by (simp only: step se r(1)) auto
    have "(\<exists>i<Suc n. field_of h (pes ! i) ''uri'' = S u \<and> \<not> no_update h (pes ! i) (Ref md))
        \<longleftrightarrow> (\<exists>i<n. field_of h (pes ! i) ''uri'' = S u \<and> \<not> no_update h (pes ! i) (Ref md))"
      using False less_Suc_eq by auto
    then show ?thesis using run r(2,3) by blast
  qed
qed



end
